theory Spec2Isabelle
  imports Main "HOL-Library.Word"
begin

section \<open>Identifiers: the "id:uid" strings of modelinfo/iduid.go\<close>

text \<open>
  Go strings are byte sequences, as HOL's \<open>string\<close> is. The declarations of the types
  \<open>Id\<close> and \<open>Uid\<close> are not part of iduid.go; \<open>Uid\<close> is the argument type of
  \<open>strconv.FormatUint\<close>, hence \<open>uint64\<close>, and \<open>Id\<close> is the 32-bit integer that
  \<open>GetId\<close> parses with bit size 32.
\<close>

type_synonym Id = "32 word"
type_synonym Uid = "64 word"
type_synonym IdUid = string

text \<open>
  A Go call either returns a value, returns an error value, or panics (a run-time
  crash, such as an index out of range). The three are kept apart.
\<close>

datatype num_error = ErrSyntax | ErrRange

datatype error =
    ComponentUndefined nat
  | CantParse string num_error
  | ComponentIsZero nat
  | TooManyColons

datatype runtime_panic = IndexOutOfRange

datatype 'a result = Ok 'a | Err error | Panic runtime_panic

subsection \<open>The standard library: strings.Split, strconv.ParseUint, strconv.FormatUint\<close>

text \<open>
  \<open>strings.Split(s, ":")\<close> cuts \<open>s\<close> at every separator byte; the result has one more
  element than \<open>s\<close> has separators, so it is never empty (\<open>Split("", ":")\<close> is \<open>[""]\<close>).
\<close>

fun cons_first :: "char \<Rightarrow> string list \<Rightarrow> string list" where
  "cons_first c [] = [c] # []"
| "cons_first c (p # ps) = (c # p) # ps"

fun Split :: "string \<Rightarrow> char \<Rightarrow> string list" where
  "Split [] sep = [] # []"
| "Split (c # cs) sep = (if c = sep then [] # Split cs sep else cons_first c (Split cs sep))"

text \<open>Indexing a slice: Go panics when the index is out of range.\<close>

definition index :: "'a list \<Rightarrow> nat \<Rightarrow> 'a result" where
  "index xs n = (if n < length xs then Ok (xs ! n) else Panic IndexOutOfRange)"

definition is_digit :: "char \<Rightarrow> bool" where
  "is_digit c \<longleftrightarrow> 48 \<le> (of_char c :: nat) \<and> (of_char c :: nat) \<le> 57"

definition digit_of :: "char \<Rightarrow> nat" where
  "digit_of c = (of_char c :: nat) - 48"

definition cutoff :: nat where
  "cutoff = (2 ^ 64 - 1) div 10 + 1"

text \<open>
  The loop of \<open>strconv.ParseUint\<close> for base 10. The accumulator \<open>n\<close> is a \<open>uint64\<close>
  below \<open>cutoff\<close> when it is multiplied, so \<open>n * 10\<close> does not wrap; the library's test
  \<open>n1 < n || n1 > maxVal\<close> on the wrapped sum \<open>n1\<close> holds exactly when the unbounded sum
  exceeds \<open>maxVal\<close>, which is how it is written here. Base 10 accepts no sign, no
  underscore and no letter. The bit size is 32 or 64 at every call.
\<close>

fun parse_loop :: "nat \<Rightarrow> nat \<Rightarrow> string \<Rightarrow> num_error + nat" where
  "parse_loop maxVal n [] = Inr n"
| "parse_loop maxVal n (c # cs) =
     (if \<not> is_digit c then Inl ErrSyntax
      else if n \<ge> cutoff then Inl ErrRange
      else if n * 10 + digit_of c > maxVal then Inl ErrRange
      else parse_loop maxVal (n * 10 + digit_of c) cs)"

definition ParseUint :: "string \<Rightarrow> nat \<Rightarrow> num_error + nat" where
  "ParseUint s bitSize =
     (if s = [] then Inl ErrSyntax else parse_loop (2 ^ bitSize - 1) 0 s)"

definition digit_char :: "nat \<Rightarrow> char" where
  "digit_char d = char_of (48 + d)"

function FormatUint :: "nat \<Rightarrow> string" where
  "FormatUint n = (if n < 10 then [digit_char n] else FormatUint (n div 10) @ [digit_char (n mod 10)])"
  by pat_completeness auto
termination
  by (relation "measure id") auto

declare FormatUint.simps [simp del]

definition FormatInt :: "int \<Rightarrow> string" where
  "FormatInt i = (if i < 0 then CHR ''-'' # FormatUint (nat (- i)) else FormatUint (nat i))"

subsection \<open>iduid.go\<close>

definition CreateIdUid :: "Id \<Rightarrow> Uid \<Rightarrow> IdUid" where
  "CreateIdUid i uid = FormatInt (uint i) @ '':'' @ FormatUint (unat uid)"

definition getComponent :: "IdUid \<Rightarrow> nat \<Rightarrow> nat \<Rightarrow> bool \<Rightarrow> 64 word result" where
  "getComponent str n bitsize allowZero =
     (if length str = 0 then Err (ComponentUndefined n)
      else case index (Split str CHR '':'') n of
          Panic p \<Rightarrow> Panic p
        | Err e \<Rightarrow> Err e
        | Ok idStr \<Rightarrow>
            (case ParseUint idStr bitsize of
               Inl err \<Rightarrow> Err (CantParse idStr err)
             | Inr component \<Rightarrow>
                 if component = 0 \<and> \<not> allowZero then Err (ComponentIsZero n)
                 else Ok (word_of_nat component)))"

definition GetId :: "IdUid \<Rightarrow> Id result" where
  "GetId str = (case getComponent str 0 32 False of
                  Ok i \<Rightarrow> Ok (ucast i)
                | Err err \<Rightarrow> Err err
                | Panic p \<Rightarrow> Panic p)"

definition GetUid :: "IdUid \<Rightarrow> Uid result" where
  "GetUid str = getComponent str 1 64 False"

definition GetUidAllowZero :: "IdUid \<Rightarrow> Uid result" where
  "GetUidAllowZero str = getComponent str 1 64 True"

definition Validate :: "IdUid \<Rightarrow> unit result" where
  "Validate str =
     (case GetUid str of
        Panic p \<Rightarrow> Panic p
      | Err err \<Rightarrow> Err err
      | Ok _ \<Rightarrow>
          (case GetId str of
             Panic p \<Rightarrow> Panic p
           | Err err \<Rightarrow> Err err
           | Ok _ \<Rightarrow>
               if length (Split str CHR '':'') \<noteq> 2 then Err TooManyColons
               else Ok ()))"

definition Get :: "IdUid \<Rightarrow> (Id \<times> Uid) result" where
  "Get str =
     (case GetId str of
        Panic p \<Rightarrow> Panic p
      | Err err \<Rightarrow> Err err
      | Ok i \<Rightarrow>
          (case GetUid str of
             Panic p \<Rightarrow> Panic p
           | Err err \<Rightarrow> Err err
           | Ok uid \<Rightarrow> Ok (i, uid)))"


text \<open>
  The value of a digit string and the canonical form of an identifier: no component
  starts with the digit zero. Both are used to state the round trip only; the code
  computes neither.
\<close>

definition dec_step :: "nat \<Rightarrow> char \<Rightarrow> nat" where
  "dec_step a c = a * 10 + digit_of c"

definition no_leading_zero :: "string \<Rightarrow> bool" where
  "no_leading_zero s = (case s of [] \<Rightarrow> True | c # _ \<Rightarrow> c \<noteq> CHR ''0'')"

definition canonical :: "IdUid \<Rightarrow> bool" where
  "canonical str = list_all no_leading_zero (Split str CHR '':'')"

section \<open>The model: entities and properties\<close>

text \<open>
  Modelled from the spec: the declarations of the model package (the property type tags,
  the flags, the structs Property, Entity and ModelInfo, and their constructors) are not
  among the sources at hand; only their uses are. The type tags are the ones the spec
  lists (integer variants, floating point, string, byte vector, string vector,
  relation-id, date); \<open>PropertyTypeZero\<close> is Go's zero value of the tag, which the schema
  reader tests with \<open>property.Type == 0\<close>. The records keep the fields the sources read or
  write.
\<close>

datatype PropertyType =
    PropertyTypeZero
  | PropertyTypeBool
  | PropertyTypeByte
  | PropertyTypeShort
  | PropertyTypeChar
  | PropertyTypeInt
  | PropertyTypeLong
  | PropertyTypeFloat
  | PropertyTypeDouble
  | PropertyTypeString
  | PropertyTypeDate
  | PropertyTypeRelation
  | PropertyTypeByteVector
  | PropertyTypeStringVector

datatype PropertyFlag =
    PropertyFlagId
  | PropertyFlagIndexed
  | PropertyFlagIndexHash
  | PropertyFlagIndexHash64
  | PropertyFlagUnique

record Property =
  prop_Name :: string
  prop_Id :: IdUid
  prop_Type :: PropertyType
  prop_Flags :: "PropertyFlag list"
  prop_IndexId :: "IdUid option"
  prop_UidRequest :: bool

text \<open>
  \<open>ent_Meta\<close> is the language-specific payload a parser attaches to an entity; the
  generator core only tests it against nil and resets it, so its presence is all that is
  kept.
\<close>

record Entity =
  ent_Name :: string
  ent_Id :: IdUid
  ent_Properties :: "Property list"
  ent_CurrentlyPresent :: bool
  ent_Meta :: "unit option"

record 'r ModelInfo =
  Entities :: "Entity list"
  ModelVersion :: int
  MinimumParserVersion :: int
  Rand :: "'r option"

text \<open>
  Modelled from the spec: \<open>CreateEntity\<close> and \<open>CreateProperty\<close> are not among the
  sources; they take the id and the uid of the new element, and the element's identifier
  is the "id:uid" string of the two. A fresh element has no name, no properties, no type
  and no flags, and is not marked present.
\<close>

definition CreateProperty :: "Entity \<Rightarrow> Id \<Rightarrow> Uid \<Rightarrow> Property" where
  "CreateProperty entity i uid =
     \<lparr>prop_Name = [], prop_Id = CreateIdUid i uid, prop_Type = PropertyTypeZero,
      prop_Flags = [], prop_IndexId = None, prop_UidRequest = False\<rparr>"

definition CreateEntity :: "'r ModelInfo \<Rightarrow> Id \<Rightarrow> Uid \<Rightarrow> Entity" where
  "CreateEntity model i uid =
     \<lparr>ent_Name = [], ent_Id = CreateIdUid i uid, ent_Properties = [],
      ent_CurrentlyPresent = False, ent_Meta = None\<rparr>"

text \<open>
  Modelled from the spec: \<open>GetIdAllowZero\<close> is called by the annotation processing but
  is not defined in iduid.go; it is the relaxed variant that permits a zero id, that is,
  \<open>GetId\<close> with the zero test switched off.
\<close>

definition GetIdAllowZero :: "IdUid \<Rightarrow> Id result" where
  "GetIdAllowZero str = (case getComponent str 0 32 True of
                           Ok i \<Rightarrow> Ok (ucast i)
                         | Err err \<Rightarrow> Err err
                         | Panic p \<Rightarrow> Panic p)"

section \<open>The FlatBuffers schema reader of c/schema-reader.go\<close>

text \<open>
  The reflection accessors read a parsed schema: a list of objects, each a name and a
  list of fields, each a name and a type. \<open>field.Type(nil)\<close> may return nil.
  \<open>schema.Objects(&object, i)\<close> and \<open>object.Fields(&field, i)\<close> report whether the
  element could be read.
\<close>

datatype BaseType =
    BaseTypeNone | BaseTypeUType | BaseTypeBool | BaseTypeByte | BaseTypeUByte
  | BaseTypeShort | BaseTypeUShort | BaseTypeInt | BaseTypeUInt | BaseTypeLong
  | BaseTypeULong | BaseTypeFloat | BaseTypeDouble | BaseTypeString | BaseTypeVector
  | BaseTypeObj | BaseTypeUnion

record FbType =
  fbtype_BaseType :: BaseType
  fbtype_Element :: BaseType

record FbField =
  fbfield_Name :: string
  fbfield_Type :: "FbType option"

record FbObject =
  fbobject_Name :: string
  fbobject_Fields :: "FbField list"

record FbSchema =
  fbschema_Objects :: "FbObject list"

definition ObjectsLength :: "FbSchema \<Rightarrow> nat" where
  "ObjectsLength schema = length (fbschema_Objects schema)"

definition Objects :: "FbSchema \<Rightarrow> nat \<Rightarrow> FbObject option" where
  "Objects schema j =
     (if j < length (fbschema_Objects schema) then Some (fbschema_Objects schema ! j) else None)"

definition FieldsLength :: "FbObject \<Rightarrow> nat" where
  "FieldsLength object = length (fbobject_Fields object)"

definition Fields :: "FbObject \<Rightarrow> nat \<Rightarrow> FbField option" where
  "Fields object j =
     (if j < length (fbobject_Fields object) then Some (fbobject_Fields object ! j) else None)"

datatype reader_error =
    CantAccessObject nat
  | ObjectError nat string reader_error
  | CantAccessField nat
  | FieldError nat string reader_error
  | CantAccessType
  | UnsupportedVectorElementType BaseType
  | UnsupportedType BaseType

text \<open>
  The table \<open>fbTypeToObxType\<close> is not among the sources; it is a parameter of the reader.
  A base type missing from the Go map yields the zero tag.
\<close>

definition readObjectField ::
  "(BaseType \<Rightarrow> PropertyType) \<Rightarrow> Entity \<Rightarrow> FbField \<Rightarrow> reader_error + Entity" where
  "readObjectField fbTypeToObxType entity field =
     (let property = (CreateProperty entity 0 0)\<lparr>prop_Name := fbfield_Name field\<rparr>
      in case fbfield_Type field of
           None \<Rightarrow> Inl CantAccessType
         | Some fbsType \<Rightarrow>
             (let fbsBaseType = fbtype_BaseType fbsType;
                  typed =
                    (if fbsBaseType = BaseTypeVector then
                       (let fbsElBaseType = fbtype_Element fbsType
                        in if fbsElBaseType = BaseTypeString
                             then Inr (property\<lparr>prop_Type := PropertyTypeStringVector\<rparr>)
                           else if fbsElBaseType = BaseTypeByte \<or> fbsElBaseType = BaseTypeUByte
                             then Inr (property\<lparr>prop_Type := PropertyTypeByteVector\<rparr>)
                           else Inl (UnsupportedVectorElementType fbsElBaseType))
                     else Inr (property\<lparr>prop_Type := fbTypeToObxType fbsBaseType\<rparr>))
              in case typed of
                   Inl err \<Rightarrow> Inl err
                 | Inr property' \<Rightarrow>
                     if prop_Type property' = PropertyTypeZero then Inl (UnsupportedType fbsBaseType)
                     else Inr (entity\<lparr>ent_Properties := ent_Properties entity @ [property']\<rparr>)))"

function readFields ::
  "(BaseType \<Rightarrow> PropertyType) \<Rightarrow> FbObject \<Rightarrow> nat \<Rightarrow> Entity \<Rightarrow> reader_error + Entity" where
  "readFields fbTypeToObxType object i entity =
     (if i < FieldsLength object then
        (case Fields object i of
           None \<Rightarrow> Inl (CantAccessField i)
         | Some field \<Rightarrow>
             (case readObjectField fbTypeToObxType entity field of
                Inl err \<Rightarrow> Inl (FieldError i (fbfield_Name field) err)
              | Inr entity' \<Rightarrow> readFields fbTypeToObxType object (Suc i) entity'))
      else Inr entity)"
  by pat_completeness auto
termination
  by (relation "measure (\<lambda>(t, object, i, entity). FieldsLength object - i)") auto

declare readFields.simps [simp del]

definition readObject ::
  "(BaseType \<Rightarrow> PropertyType) \<Rightarrow> 'r ModelInfo \<Rightarrow> FbObject \<Rightarrow> reader_error + 'r ModelInfo" where
  "readObject fbTypeToObxType model object =
     (let entity = (CreateEntity model 0 0)\<lparr>ent_Name := fbobject_Name object\<rparr>
      in case readFields fbTypeToObxType object 0 entity of
           Inl err \<Rightarrow> Inl err
         | Inr entity' \<Rightarrow> Inr (model\<lparr>Entities := Entities model @ [entity']\<rparr>))"

function readObjects ::
  "(BaseType \<Rightarrow> PropertyType) \<Rightarrow> FbSchema \<Rightarrow> nat \<Rightarrow> 'r ModelInfo \<Rightarrow> reader_error + 'r ModelInfo" where
  "readObjects fbTypeToObxType schema i model =
     (if i < ObjectsLength schema then
        (case Objects schema i of
           None \<Rightarrow> Inl (CantAccessObject i)
         | Some object \<Rightarrow>
             (case readObject fbTypeToObxType model object of
                Inl err \<Rightarrow> Inl (ObjectError i (fbobject_Name object) err)
              | Inr model' \<Rightarrow> readObjects fbTypeToObxType schema (Suc i) model'))
      else Inr model)"
  by pat_completeness auto
termination
  by (relation "measure (\<lambda>(t, schema, i, model). ObjectsLength schema - i)") auto

declare readObjects.simps [simp del]

definition read :: "(BaseType \<Rightarrow> PropertyType) \<Rightarrow> FbSchema \<Rightarrow> 'r ModelInfo \<Rightarrow> reader_error + 'r ModelInfo" where
  "read fbTypeToObxType schema model = readObjects fbTypeToObxType schema 0 model"

definition identifier_unset :: "Entity \<Rightarrow> bool" where
  "identifier_unset e \<longleftrightarrow>
     ent_Id e = CreateIdUid 0 0 \<and> list_all (\<lambda>p. prop_Id p = CreateIdUid 0 0) (ent_Properties e)"

definition being_schema :: FbSchema where
  "being_schema = \<lparr>fbschema_Objects =
     [\<lparr>fbobject_Name = ''Item'',
       fbobject_Fields = [\<lparr>fbfield_Name = ''name'',
                           fbfield_Type = Some \<lparr>fbtype_BaseType = BaseTypeString, fbtype_Element = BaseTypeNone\<rparr>\<rparr>,
                          \<lparr>fbfield_Name = ''weight'',
                           fbfield_Type = Some \<lparr>fbtype_BaseType = BaseTypeShort, fbtype_Element = BaseTypeNone\<rparr>\<rparr>]\<rparr>]\<rparr>"

definition sample_type_table :: "BaseType \<Rightarrow> PropertyType" where
  "sample_type_table b =
     (if b = BaseTypeString then PropertyTypeString
      else if b = BaseTypeShort then PropertyTypeShort
      else if b = BaseTypeLong then PropertyTypeLong
      else PropertyTypeZero)"

definition empty_model :: "nat ModelInfo" where
  "empty_model = \<lparr>Entities = [], ModelVersion = 0, MinimumParserVersion = 0, Rand = None\<rparr>"


section \<open>Annotation processing of the binding package (Field.ProcessAnnotations)\<close>

text \<open>
  The annotations of a field are a Go map from the annotation's name to a pointer; a
  key may be present with a nil pointer, and \<open>len(a)\<close> counts the keys. \<open>a[key]\<close> is nil
  for a missing key as well. Only the \<open>Value\<close> of an annotation is read.
\<close>

record Annotation =
  Value :: string

type_synonym Annotations = "string \<rightharpoonup> Annotation option"

definition annotation :: "Annotations \<Rightarrow> string \<Rightarrow> Annotation option" where
  "annotation a key = (case a key of Some (Some x) \<Rightarrow> Some x | _ \<Rightarrow> None)"

definition len :: "Annotations \<Rightarrow> nat" where
  "len a = card (dom a)"

record Field =
  field_Name :: string
  field_IsSkipped :: bool
  field_property :: Property

datatype binding_error =
    IgnoreAnnotationMisused
  | NameAnnotationEmpty
  | InvalidDateType PropertyType
  | UnknownIndexType string
  | SetIndexFailed string
  | CantParseUid num_error
  | CantParsePropertyId error

text \<open>
  The methods \<open>AddFlag\<close> and \<open>SetIndex\<close> of a property are not among the sources, and
  \<open>strings.ToLower\<close> is the library's Unicode lower-casing: the three are parameters.
  \<open>SetIndex\<close> may fail; it returns the property as it leaves it.
\<close>

record property_ops =
  AddFlag :: "PropertyFlag \<Rightarrow> Property \<Rightarrow> Property"
  SetIndex :: "Property \<Rightarrow> binding_error option \<times> Property"
  ToLower :: "string \<Rightarrow> string"

text \<open>
  \<open>ProcessAnnotations\<close> returns an error or nil and may have changed the field before
  it returns; a panic is kept apart. The blocks of the function run in sequence, each
  on the field the previous one left, until one returns.
\<close>

type_synonym annotations_result = "runtime_panic + (binding_error option \<times> Field)"

definition and_then ::
  "annotations_result \<Rightarrow> (Field \<Rightarrow> annotations_result) \<Rightarrow> annotations_result" where
  "and_then r k =
     (case r of
        Inl p \<Rightarrow> Inl p
      | Inr (Some err, field) \<Rightarrow> Inr (Some err, field)
      | Inr (None, field) \<Rightarrow> k field)"

definition annotation_id :: "property_ops \<Rightarrow> Annotations \<Rightarrow> Field \<Rightarrow> annotations_result" where
  "annotation_id ops a field =
     (if annotation a ''id'' \<noteq> None
      then Inr (None, field\<lparr>field_property := AddFlag ops PropertyFlagId (field_property field)\<rparr>)
      else Inr (None, field))"

definition annotation_name :: "property_ops \<Rightarrow> Annotations \<Rightarrow> Field \<Rightarrow> annotations_result" where
  "annotation_name ops a field =
     (case annotation a ''name'' of
        None \<Rightarrow> Inr (None, field)
      | Some n \<Rightarrow>
          if length (Value n) = 0 then Inr (Some NameAnnotationEmpty, field)
          else Inr (None, field\<lparr>field_property :=
                 (field_property field)\<lparr>prop_Name := ToLower ops (Value n)\<rparr>\<rparr>))"

definition annotation_date :: "Annotations \<Rightarrow> Field \<Rightarrow> annotations_result" where
  "annotation_date a field =
     (if annotation a ''date'' \<noteq> None then
        (if prop_Type (field_property field) \<noteq> PropertyTypeLong
         then Inr (Some (InvalidDateType (prop_Type (field_property field))), field)
         else Inr (None, field\<lparr>field_property :=
                (field_property field)\<lparr>prop_Type := PropertyTypeDate\<rparr>\<rparr>))
      else Inr (None, field))"

definition set_index :: "property_ops \<Rightarrow> Field \<Rightarrow> annotations_result" where
  "set_index ops field =
     (case SetIndex ops (field_property field) of
        (err, property) \<Rightarrow> Inr (err, field\<lparr>field_property := property\<rparr>))"

definition annotation_index :: "property_ops \<Rightarrow> Annotations \<Rightarrow> Field \<Rightarrow> annotations_result" where
  "annotation_index ops a field =
     (case annotation a ''index'' of
        None \<Rightarrow> Inr (None, field)
      | Some ix \<Rightarrow>
          (let kind = ToLower ops (Value ix);
               flagged = (\<lambda>flag. field\<lparr>field_property := AddFlag ops flag (field_property field)\<rparr>)
           in if kind = [] then
                (if prop_Type (field_property field) = PropertyTypeString
                 then set_index ops (flagged PropertyFlagIndexHash)
                 else set_index ops (flagged PropertyFlagIndexed))
              else if kind = ''value'' then set_index ops (flagged PropertyFlagIndexed)
              else if kind = ''hash'' then set_index ops (flagged PropertyFlagIndexHash)
              else if kind = ''hash64'' then set_index ops (flagged PropertyFlagIndexHash64)
              else Inr (Some (UnknownIndexType (Value ix)), field)))"

definition annotation_unique :: "property_ops \<Rightarrow> Annotations \<Rightarrow> Field \<Rightarrow> annotations_result" where
  "annotation_unique ops a field =
     (if annotation a ''unique'' \<noteq> None
      then set_index ops (field\<lparr>field_property := AddFlag ops PropertyFlagUnique (field_property field)\<rparr>)
      else Inr (None, field))"

definition annotation_uid :: "Annotations \<Rightarrow> Field \<Rightarrow> annotations_result" where
  "annotation_uid a field =
     (case annotation a ''uid'' of
        None \<Rightarrow> Inr (None, field)
      | Some u \<Rightarrow>
          if length (Value u) = 0
          then Inr (None, field\<lparr>field_property := (field_property field)\<lparr>prop_UidRequest := True\<rparr>\<rparr>)
          else (case ParseUint (Value u) 64 of
                  Inl err \<Rightarrow> Inr (Some (CantParseUid err), field)
                | Inr uid \<Rightarrow>
                    (case GetIdAllowZero (prop_Id (field_property field)) of
                       Panic p \<Rightarrow> Inl p
                     | Err err \<Rightarrow> Inr (Some (CantParsePropertyId err), field)
                     | Ok i \<Rightarrow>
                         Inr (None, field\<lparr>field_property :=
                           (field_property field)\<lparr>prop_Id := CreateIdUid i (word_of_nat uid)\<rparr>\<rparr>))))"

definition ProcessAnnotations :: "property_ops \<Rightarrow> Field \<Rightarrow> Annotations \<Rightarrow> annotations_result" where
  "ProcessAnnotations ops field a =
     (case annotation a ''-'' of
        Some skip \<Rightarrow>
          if len a \<noteq> 1 \<or> Value skip \<noteq> [] then Inr (Some IgnoreAnnotationMisused, field)
          else Inr (None, field\<lparr>field_IsSkipped := True\<rparr>)
      | None \<Rightarrow>
          and_then (annotation_id ops a field) (\<lambda>field.
          and_then (annotation_name ops a field) (\<lambda>field.
          and_then (annotation_date a field) (\<lambda>field.
          and_then (annotation_index ops a field) (\<lambda>field.
          and_then (annotation_unique ops a field) (\<lambda>field.
          annotation_uid a field))))))"

text \<open>Parameters and a property for the examples.\<close>

definition sample_ops :: property_ops where
  "sample_ops = \<lparr>AddFlag = (\<lambda>flag p. p\<lparr>prop_Flags := flag # prop_Flags p\<rparr>),
                 SetIndex = (\<lambda>p. (None, p\<lparr>prop_IndexId := Some []\<rparr>)),
                 ToLower = (\<lambda>s. s)\<rparr>"

definition sample_field :: "PropertyType \<Rightarrow> Field" where
  "sample_field t =
     \<lparr>field_Name = ''Created'', field_IsSkipped = False,
      field_property = \<lparr>prop_Name = ''created'', prop_Id = ''0:0'', prop_Type = t,
                        prop_Flags = [], prop_IndexId = None, prop_UidRequest = False\<rparr>\<rparr>"

section \<open>The generator: Process, createBinding, createModel\<close>

text \<open>
  \<open>Process\<close> works on the file system and calls the model package and the
  language-specific code generator. None of these is among the sources, so they are
  parameters: the operating system and the model package in an environment, the code
  generator in a record of its own, as the interface \<open>CodeGenerator\<close> declares it. The
  file system is a state \<open>'w\<close> that every call reads or changes; the in-memory model is
  passed along and returned, since the methods change it in place. A random source is a
  value of type \<open>'r\<close>. Writes to standard output are left out.

  Modelled from the spec: the merge engine, the finalizer, the removal of an entity and
  the allocation of identifiers are not among the sources. By the spec the core is
  single-threaded and synchronous, and the drawing of random uids is its sole source of
  non-determinism; so every operation of the model package is a function of the model it
  is given, which holds the random source, and of its other arguments.
\<close>

datatype gen_error =
    External string
  | CantCreateOutputPath string gen_error
  | CantCreateOutputHeadersPath string gen_error
  | CantInitModelInfo gen_error
  | InvalidModelInfoLoaded gen_error
  | CantMergeModelInformation gen_error
  | ModelFinalizationFailed gen_error
  | RemovingEntityFailed string gen_error
  | CantWriteModelInfoFile string gen_error

record FileInfo =
  IsDir :: bool
  IsRegular :: bool

record 'r Options =
  opt_InPath :: string
  opt_OutPath :: string
  opt_OutHeadersPath :: string
  opt_ModelInfoFile :: string
  opt_Rand :: "'r option"

record ('w, 'r) CodeGenerator =
  IsGeneratedFile :: "string \<Rightarrow> bool"
  IsSourceFile :: "string \<Rightarrow> bool"
  ParseSource :: "string \<Rightarrow> 'w \<Rightarrow> gen_error + 'r ModelInfo"
  WriteBindingFiles :: "string \<Rightarrow> 'r Options \<Rightarrow> 'r ModelInfo \<Rightarrow> 'w \<Rightarrow> gen_error option \<times> 'w"
  WriteModelBindingFile :: "'r Options \<Rightarrow> 'r ModelInfo \<Rightarrow> 'w \<Rightarrow> gen_error option \<times> 'w"

record ('w, 'r) Env =
  GOOS_windows :: bool
  model_ModelVersion :: int
  rand_New :: "int \<Rightarrow> 'r"
  filepath_Dir :: "string \<Rightarrow> string"
  filepath_Join :: "string \<Rightarrow> string \<Rightarrow> string"
  os_MkdirAll :: "string \<Rightarrow> 'w \<Rightarrow> gen_error option \<times> 'w"
  os_Stat :: "string \<Rightarrow> 'w \<Rightarrow> gen_error + FileInfo"
  os_Remove :: "string \<Rightarrow> 'w \<Rightarrow> gen_error option \<times> 'w"
  filepath_Glob :: "string \<Rightarrow> 'w \<Rightarrow> gen_error + string list"
  LoadOrCreateModel :: "string \<Rightarrow> 'w \<Rightarrow> (gen_error + 'r ModelInfo) \<times> 'w"
  model_Validate :: "'r ModelInfo \<Rightarrow> gen_error option"
  model_Close :: "'r ModelInfo \<Rightarrow> 'w \<Rightarrow> 'w"
  mergeBindingWithModelInfo :: "'r ModelInfo \<Rightarrow> 'r ModelInfo \<Rightarrow> gen_error option \<times> 'r ModelInfo"
  model_Finalize :: "'r ModelInfo \<Rightarrow> gen_error option \<times> 'r ModelInfo"
  model_RemoveEntity :: "Entity \<Rightarrow> 'r ModelInfo \<Rightarrow> gen_error option \<times> 'r ModelInfo"
  model_Write :: "'r ModelInfo \<Rightarrow> 'w \<Rightarrow> gen_error option \<times> 'w"

text \<open>
  A run keeps, beside the file system, the sequence of the calls that matter to the
  claims, each with what it was given or what it returned: the validation of the loaded
  model, every merge and every finalization with its result, every removal of an
  entity, and the write of the model file with the model written.
\<close>

datatype 'r event =
    EvValidate "'r ModelInfo"
  | EvMerge "gen_error option"
  | EvFinalize "gen_error option"
  | EvRemoveEntity Entity
  | EvWrite "'r ModelInfo"

record ('w, 'r) run =
  world :: 'w
  log :: "'r event list"

text \<open>
  What a function of type \<open>error\<close> returns: nil or an error. \<open>pathForEach\<close> calls itself
  on every directory below a recursive pattern; the depth of the descent is bounded by a
  counter, and a run that exhausts it stops with \<open>RetOutOfFuel\<close>, the state being what
  it was at that moment.
\<close>

datatype ret = RetNil | RetErr gen_error | RetOutOfFuel

definition ModelInfoFile :: "('w, 'r) Env \<Rightarrow> string \<Rightarrow> string" where
  "ModelInfoFile env dir = filepath_Join env dir ''objectbox-model.json''"

definition recursionSuffix :: string where
  "recursionSuffix = ''/...''"

definition HasSuffix :: "string \<Rightarrow> string \<Rightarrow> bool" where
  "HasSuffix s suffix \<longleftrightarrow>
     length suffix \<le> length s \<and> drop (length s - length suffix) s = suffix"

definition ContainsAny :: "string \<Rightarrow> string \<Rightarrow> bool" where
  "ContainsAny s chars = list_ex (\<lambda>c. c \<in> set chars) s"

definition PathIsDirOrPattern :: "('w, 'r) Env \<Rightarrow> 'w \<Rightarrow> string \<Rightarrow> bool" where
  "PathIsDirOrPattern env w path =
     (if HasSuffix path recursionSuffix then True
      else if ContainsAny path ''*?['' \<or> (\<not> GOOS_windows env \<and> ContainsAny path [CHR 0x5C])
        then True
      else (case os_Stat env path w of
              Inr finfo \<Rightarrow> IsDir finfo
            | Inl err \<Rightarrow> False))"

fun pathForEach ::
    "('w, 'r) Env \<Rightarrow> ('s \<Rightarrow> 'w) \<Rightarrow> nat \<Rightarrow> string \<Rightarrow> (string \<Rightarrow> 's \<Rightarrow> ret \<times> 's) \<Rightarrow> 's \<Rightarrow> ret \<times> 's"
  and forEachMatch ::
    "('w, 'r) Env \<Rightarrow> ('s \<Rightarrow> 'w) \<Rightarrow> nat \<Rightarrow> bool \<Rightarrow> string list \<Rightarrow> (string \<Rightarrow> 's \<Rightarrow> ret \<times> 's) \<Rightarrow> 's
       \<Rightarrow> ret \<times> 's"
where
  "pathForEach env world_of 0 path fn s = (RetOutOfFuel, s)"
| "pathForEach env world_of (Suc depth) path fn s =
     (let recursive = HasSuffix path recursionSuffix;
          pattern =
            (if recursive
             then take (length path - length recursionSuffix) path @ ''/*''
             else (case os_Stat env path (world_of s) of
                     Inr finfo \<Rightarrow> if IsDir finfo then path @ ''/*'' else path
                   | Inl err \<Rightarrow> path))
      in case filepath_Glob env pattern (world_of s) of
           Inl err \<Rightarrow> (RetErr err, s)
         | Inr matches \<Rightarrow> forEachMatch env world_of depth recursive matches fn s)"
| "forEachMatch env world_of depth recursive [] fn s = (RetNil, s)"
| "forEachMatch env world_of depth recursive (subpath # matches) fn s =
     (case os_Stat env subpath (world_of s) of
        Inl err \<Rightarrow> (RetErr err, s)
      | Inr finfo \<Rightarrow>
          (case (if recursive \<and> IsDir finfo
                   then pathForEach env world_of depth (subpath @ recursionSuffix) fn s
                 else if IsRegular finfo then fn subpath s
                 else (RetNil, s)) of
             (RetNil, s') \<Rightarrow> forEachMatch env world_of depth recursive matches fn s'
           | (err, s') \<Rightarrow> (err, s')))"

definition Clean ::
  "('w, 'r) Env \<Rightarrow> ('w, 'r) CodeGenerator \<Rightarrow> nat \<Rightarrow> string \<Rightarrow> ('w, 'r) run \<Rightarrow> ret \<times> ('w, 'r) run" where
  "Clean env codeGenerator depth path r =
     pathForEach env world depth path
       (\<lambda>filePath r.
          if \<not> IsGeneratedFile codeGenerator filePath then (RetNil, r)
          else (case os_Remove env filePath (world r) of
                  (None, w) \<Rightarrow> (RetNil, r\<lparr>world := w\<rparr>)
                | (Some err, w) \<Rightarrow> (RetErr err, r\<lparr>world := w\<rparr>)))
       r"

text \<open>
  Modelled from the spec: \<open>EntitiesWithMeta\<close> is not among the sources; by its name and
  its use in the templates it yields the entities whose \<open>Meta\<close> is set. The two loops of
  \<open>createBinding\<close> over it assign to a field of each such entity.
\<close>

definition clear_meta :: "'r ModelInfo \<Rightarrow> 'r ModelInfo" where
  "clear_meta storedModel =
     storedModel\<lparr>Entities :=
       map (\<lambda>entity. if ent_Meta entity \<noteq> None then entity\<lparr>ent_Meta := None\<rparr> else entity)
         (Entities storedModel)\<rparr>"

definition mark_present :: "'r ModelInfo \<Rightarrow> 'r ModelInfo" where
  "mark_present storedModel =
     storedModel\<lparr>Entities :=
       map (\<lambda>entity. if ent_Meta entity \<noteq> None then entity\<lparr>ent_CurrentlyPresent := True\<rparr> else entity)
         (Entities storedModel)\<rparr>"

definition logged :: "('w, 'r) run \<Rightarrow> 'r event \<Rightarrow> ('w, 'r) run" where
  "logged r ev = r\<lparr>log := log r @ [ev]\<rparr>"

text \<open>The function that \<open>createBinding\<close> hands to \<open>pathForEach\<close>.\<close>

definition createBinding_file ::
  "('w, 'r) Env \<Rightarrow> ('w, 'r) CodeGenerator \<Rightarrow> 'r Options \<Rightarrow> string
     \<Rightarrow> ('w, 'r) run \<times> 'r ModelInfo \<Rightarrow> ret \<times> (('w, 'r) run \<times> 'r ModelInfo)" where
  "createBinding_file env codeGenerator options filePath s =
     (case s of (r, storedModel) \<Rightarrow>
        if \<not> IsSourceFile codeGenerator filePath then (RetNil, (r, storedModel))
        else
          (let cleared = clear_meta storedModel
           in case ParseSource codeGenerator filePath (world r) of
                Inl err \<Rightarrow> (RetErr err, (r, cleared))
              | Inr currentModel \<Rightarrow>
                  (case mergeBindingWithModelInfo env currentModel cleared of
                     (Some err, merged) \<Rightarrow>
                       (RetErr (CantMergeModelInformation err), (logged r (EvMerge (Some err)), merged))
                   | (None, merged) \<Rightarrow>
                       (case model_Finalize env merged of
                          (Some err, finalized) \<Rightarrow>
                            (RetErr (ModelFinalizationFailed err),
                             (logged (logged r (EvMerge None)) (EvFinalize (Some err)), finalized))
                        | (None, finalized) \<Rightarrow>
                            (let r' = logged (logged r (EvMerge None)) (EvFinalize None)
                             in case WriteBindingFiles codeGenerator filePath options finalized (world r') of
                                  (Some err, w) \<Rightarrow> (RetErr err, (r'\<lparr>world := w\<rparr>, finalized))
                                | (None, w) \<Rightarrow> (RetNil, (r'\<lparr>world := w\<rparr>, mark_present finalized)))))))"

definition createBinding ::
  "('w, 'r) Env \<Rightarrow> ('w, 'r) CodeGenerator \<Rightarrow> nat \<Rightarrow> 'r Options
     \<Rightarrow> ('w, 'r) run \<times> 'r ModelInfo \<Rightarrow> ret \<times> (('w, 'r) run \<times> 'r ModelInfo)" where
  "createBinding env codeGenerator depth options s =
     pathForEach env (\<lambda>s. world (fst s)) depth (opt_InPath options)
       (createBinding_file env codeGenerator options) s"

fun removeEntities ::
  "('w, 'r) Env \<Rightarrow> Entity list \<Rightarrow> ('w, 'r) run \<times> 'r ModelInfo \<Rightarrow> ret \<times> (('w, 'r) run \<times> 'r ModelInfo)" where
  "removeEntities env [] s = (RetNil, s)"
| "removeEntities env (entity # removedEntities) s =
     (case s of (r, modelInfo) \<Rightarrow>
        (case model_RemoveEntity env entity modelInfo of
           (Some err, modelInfo') \<Rightarrow>
             (RetErr (RemovingEntityFailed (ent_Name entity) err),
              (logged r (EvRemoveEntity entity), modelInfo'))
         | (None, modelInfo') \<Rightarrow>
             removeEntities env removedEntities (logged r (EvRemoveEntity entity), modelInfo')))"

definition writeModel ::
  "('w, 'r) Env \<Rightarrow> ('w, 'r) CodeGenerator \<Rightarrow> 'r Options
     \<Rightarrow> ('w, 'r) run \<times> 'r ModelInfo \<Rightarrow> ret \<times> (('w, 'r) run \<times> 'r ModelInfo)" where
  "writeModel env codeGenerator options s =
     (case s of (r, modelInfo) \<Rightarrow>
        (case model_Write env modelInfo (world r) of
           (Some err, w) \<Rightarrow>
             (RetErr (CantWriteModelInfoFile (opt_ModelInfoFile options) err),
              ((logged r (EvWrite modelInfo))\<lparr>world := w\<rparr>, modelInfo))
         | (None, w) \<Rightarrow>
             (case WriteModelBindingFile codeGenerator options modelInfo w of
                (Some err, w') \<Rightarrow> (RetErr err, ((logged r (EvWrite modelInfo))\<lparr>world := w'\<rparr>, modelInfo))
              | (None, w') \<Rightarrow> (RetNil, ((logged r (EvWrite modelInfo))\<lparr>world := w'\<rparr>, modelInfo)))))"

definition createModel ::
  "('w, 'r) Env \<Rightarrow> ('w, 'r) CodeGenerator \<Rightarrow> 'r Options
     \<Rightarrow> ('w, 'r) run \<times> 'r ModelInfo \<Rightarrow> ret \<times> (('w, 'r) run \<times> 'r ModelInfo)" where
  "createModel env codeGenerator options s =
     (case s of (r, modelInfo) \<Rightarrow>
        if PathIsDirOrPattern env (world r) (opt_InPath options) then
          (let removedEntities = filter (\<lambda>entity. \<not> ent_CurrentlyPresent entity) (Entities modelInfo)
           in case removeEntities env removedEntities (r, modelInfo) of
                (RetNil, (r', modelInfo')) \<Rightarrow>
                  (case model_Finalize env modelInfo' of
                     (Some err, finalized) \<Rightarrow>
                       (RetErr (ModelFinalizationFailed err),
                        (logged r' (EvFinalize (Some err)), finalized))
                   | (None, finalized) \<Rightarrow>
                       writeModel env codeGenerator options (logged r' (EvFinalize None), finalized))
              | (err, s') \<Rightarrow> (err, s'))
        else writeModel env codeGenerator options (r, modelInfo))"

text \<open>
  \<open>Process\<close> is given, beside its options, the code generator that the options carry,
  the reading \<open>now\<close> of the clock (\<open>time.Now().UTC().UnixNano()\<close>, read only when no
  random source is supplied), the bound \<open>depth\<close> on the descent of \<open>pathForEach\<close>, and
  the file system. \<open>processModel\<close> is the part of \<open>Process\<close> from the moment the model
  is loaded: the random source is installed, the model is validated and upgraded to the
  latest version, and the bindings and the model are created. The deferred \<open>Close\<close> runs
  on every way out of that part.
\<close>

definition processModel ::
  "('w, 'r) Env \<Rightarrow> ('w, 'r) CodeGenerator \<Rightarrow> nat \<Rightarrow> 'r Options
     \<Rightarrow> ('w, 'r) run \<times> 'r ModelInfo \<Rightarrow> ret \<times> (('w, 'r) run \<times> 'r ModelInfo)" where
  "processModel env codeGenerator depth options s =
     (case s of (r, loaded) \<Rightarrow>
        (let modelInfo = loaded\<lparr>Rand := opt_Rand options\<rparr>;
             r' = logged r (EvValidate modelInfo)
         in case model_Validate env modelInfo of
              Some err \<Rightarrow> (RetErr (InvalidModelInfoLoaded err), (r', modelInfo))
            | None \<Rightarrow>
                (let upgraded = modelInfo\<lparr>MinimumParserVersion := model_ModelVersion env,
                                           ModelVersion := model_ModelVersion env\<rparr>
                 in case createBinding env codeGenerator depth options (r', upgraded) of
                      (RetNil, s') \<Rightarrow> createModel env codeGenerator options s'
                    | (err, s') \<Rightarrow> (err, s'))))"

definition Process ::
  "('w, 'r) Env \<Rightarrow> ('w, 'r) CodeGenerator \<Rightarrow> int \<Rightarrow> nat \<Rightarrow> 'r Options \<Rightarrow> 'w \<Rightarrow> ret \<times> ('w, 'r) run" where
  "Process env codeGenerator now depth options w =
     (case (if length (opt_OutPath options) \<noteq> 0 then os_MkdirAll env (opt_OutPath options) w
            else (None, w)) of
        (Some err, w1) \<Rightarrow>
          (RetErr (CantCreateOutputPath (opt_OutPath options) err), \<lparr>world = w1, log = []\<rparr>)
      | (None, w1) \<Rightarrow>
     (case (if length (opt_OutHeadersPath options) \<noteq> 0
            then os_MkdirAll env (opt_OutHeadersPath options) w1 else (None, w1)) of
        (Some err, w2) \<Rightarrow>
          (RetErr (CantCreateOutputHeadersPath (opt_OutPath options) err), \<lparr>world = w2, log = []\<rparr>)
      | (None, w2) \<Rightarrow>
     (case (if PathIsDirOrPattern env w2 (opt_InPath options)
            then Clean env codeGenerator depth
                   (if length (opt_OutPath options) \<noteq> 0 then opt_OutPath options
                    else opt_InPath options)
                   \<lparr>world = w2, log = []\<rparr>
            else (RetNil, \<lparr>world = w2, log = []\<rparr>)) of
        (RetNil, r3) \<Rightarrow>
          (let options = (if opt_Rand options = None
                          then options\<lparr>opt_Rand := Some (rand_New env now)\<rparr> else options);
               options = (if length (opt_ModelInfoFile options) = 0
                          then options\<lparr>opt_ModelInfoFile :=
                                 ModelInfoFile env (filepath_Dir env (opt_InPath options))\<rparr>
                          else options)
           in case LoadOrCreateModel env (opt_ModelInfoFile options) (world r3) of
                (Inl err, w4) \<Rightarrow> (RetErr (CantInitModelInfo err), r3\<lparr>world := w4\<rparr>)
              | (Inr loaded, w4) \<Rightarrow>
                  (case processModel env codeGenerator depth options (r3\<lparr>world := w4\<rparr>, loaded) of
                     (result, (r5, modelInfo)) \<Rightarrow>
                       (result, r5\<lparr>world := model_Close env modelInfo (world r5)\<rparr>)))
      | (err, r3) \<Rightarrow> (err, r3))))"

text \<open>
  Reading the log. An event has failed when it is a merge or a finalization that
  returned an error. A log is quiet when nothing in it failed and nothing was written; it
  is settled when it is quiet and, if a merge is in it, it ends with a successful
  finalization.
\<close>

fun failed :: "'r event \<Rightarrow> bool" where
  "failed (EvMerge (Some err)) = True"
| "failed (EvFinalize (Some err)) = True"
| "failed ev = False"

fun is_write :: "'r event \<Rightarrow> bool" where
  "is_write (EvWrite modelInfo) = True"
| "is_write ev = False"

fun is_merge :: "'r event \<Rightarrow> bool" where
  "is_merge (EvMerge result) = True"
| "is_merge ev = False"

fun is_finalize :: "'r event \<Rightarrow> bool" where
  "is_finalize (EvFinalize result) = True"
| "is_finalize ev = False"


definition quiet :: "'r event list \<Rightarrow> bool" where
  "quiet l \<longleftrightarrow> \<not> list_ex failed l \<and> \<not> list_ex is_write l"

definition settled :: "'r event list \<Rightarrow> bool" where
  "settled l \<longleftrightarrow> quiet l \<and> (list_ex is_merge l \<longrightarrow> l \<noteq> [] \<and> last l = EvFinalize None)"

definition binding_outcome :: "ret \<Rightarrow> 'r event list \<Rightarrow> bool" where
  "binding_outcome res l \<longleftrightarrow>
     (res = RetNil \<longrightarrow> settled l)
     \<and> (quiet l \<or> (l \<noteq> [] \<and> failed (last l) \<and> quiet (butlast l) \<and> (\<exists>err. res = RetErr err)))"

definition final_outcome :: "ret \<Rightarrow> 'r event list \<Rightarrow> bool" where
  "final_outcome res l \<longleftrightarrow>
     quiet l
     \<or> (l \<noteq> [] \<and> failed (last l) \<and> quiet (butlast l) \<and> (\<exists>err. res = RetErr err))
     \<or> (l \<noteq> [] \<and> is_write (last l) \<and> settled (butlast l))"

text \<open>
  An environment for the examples. The file system holds the directory \<open>src\<close> with the
  schema \<open>src/task.fbs\<close>, and the file \<open>notes.txt\<close>, which is no source file; it does not
  change. The stored model has the entity \<open>B\<close>; every schema declares the entity \<open>A\<close>.
  Merging appends the parsed entities, removal drops an entity by name, and nothing
  fails.
\<close>

definition entity_A :: Entity where
  "entity_A = \<lparr>ent_Name = ''A'', ent_Id = ''0:0'', ent_Properties = [],
               ent_CurrentlyPresent = False, ent_Meta = Some ()\<rparr>"

definition entity_B :: Entity where
  "entity_B = \<lparr>ent_Name = ''B'', ent_Id = ''2:7'', ent_Properties = [],
               ent_CurrentlyPresent = False, ent_Meta = None\<rparr>"

definition stored_model :: "nat ModelInfo" where
  "stored_model = \<lparr>Entities = [entity_B], ModelVersion = 5, MinimumParserVersion = 5, Rand = None\<rparr>"

definition sample_env :: "(unit, nat) Env" where
  "sample_env =
     \<lparr>GOOS_windows = False,
      model_ModelVersion = 5,
      rand_New = (\<lambda>seed. nat \<bar>seed\<bar>),
      filepath_Dir = (\<lambda>path. ''.''),
      filepath_Join = (\<lambda>dir file. dir @ ''/'' @ file),
      os_MkdirAll = (\<lambda>path w. (None, w)),
      os_Stat = (\<lambda>path w.
         if path = ''src'' then Inr \<lparr>IsDir = True, IsRegular = False\<rparr>
         else if path = ''src/task.fbs'' \<or> path = ''notes.txt''
           then Inr \<lparr>IsDir = False, IsRegular = True\<rparr>
         else Inl (External ''no such file'')),
      os_Remove = (\<lambda>path w. (None, w)),
      filepath_Glob = (\<lambda>pattern w.
         Inr (if pattern = ''src/*'' then [''src/task.fbs'']
              else if pattern = ''notes.txt'' then [''notes.txt'']
              else [])),
      LoadOrCreateModel = (\<lambda>path w. (Inr stored_model, w)),
      model_Validate = (\<lambda>modelInfo. None),
      model_Close = (\<lambda>modelInfo w. w),
      mergeBindingWithModelInfo = (\<lambda>currentModel storedModel.
         (None, storedModel\<lparr>Entities := Entities storedModel @ Entities currentModel\<rparr>)),
      model_Finalize = (\<lambda>modelInfo. (None, modelInfo)),
      model_RemoveEntity = (\<lambda>entity modelInfo.
         (None, modelInfo\<lparr>Entities := filter (\<lambda>e. ent_Name e \<noteq> ent_Name entity) (Entities modelInfo)\<rparr>)),
      model_Write = (\<lambda>modelInfo w. (None, w))\<rparr>"

definition sample_generator :: "(unit, nat) CodeGenerator" where
  "sample_generator =
     \<lparr>IsGeneratedFile = (\<lambda>file. False),
      IsSourceFile = (\<lambda>file. HasSuffix file ''.fbs''),
      ParseSource = (\<lambda>sourceFile w.
         Inr \<lparr>Entities = [entity_A], ModelVersion = 0, MinimumParserVersion = 0, Rand = None\<rparr>),
      WriteBindingFiles = (\<lambda>sourceFile options mergedModel w. (None, w)),
      WriteModelBindingFile = (\<lambda>options mergedModel w. (None, w))\<rparr>"

definition sample_options :: "string \<Rightarrow> nat Options" where
  "sample_options path =
     \<lparr>opt_InPath = path, opt_OutPath = [], opt_OutHeadersPath = [], opt_ModelInfoFile = [],
      opt_Rand = Some 11\<rparr>"

section \<open>Properties of the identifiers\<close>

lemma foldl_dec_step_ge: "n \<le> foldl dec_step n s"
proof (induction s arbitrary: n)
  case Nil then show ?case by simp
next
  case (Cons c cs)
  have "n \<le> dec_step n c" by (simp add: dec_step_def)
  also have "\<dots> \<le> foldl dec_step (dec_step n c) cs" by (rule Cons.IH)
  finally show ?case by simp
qed

lemma parse_loop_digits:
  assumes "\<forall>c \<in> set s. is_digit c" and "maxVal < 2 ^ 64" and "n \<le> maxVal"
  shows "parse_loop maxVal n s =
     (if foldl dec_step n s \<le> maxVal then Inr (foldl dec_step n s) else Inl ErrRange)"
  using assms
proof (induction s arbitrary: n)
  case Nil then show ?case by simp
next
  case (Cons c cs)
  have ge: "dec_step n c \<le> foldl dec_step (dec_step n c) cs" by (rule foldl_dec_step_ge)
  have dig: "is_digit c" using Cons.prems by simp
  show ?case
  proof (cases "n \<ge> cutoff")
    case True
    then have "n * 10 > maxVal" using Cons.prems(2) by (simp add: cutoff_def)
    then have "dec_step n c > maxVal" by (simp add: dec_step_def)
    with ge True dig show ?thesis by simp
  next
    case False
    show ?thesis
    proof (cases "n * 10 + digit_of c > maxVal")
      case True
      then have "dec_step n c > maxVal" by (simp add: dec_step_def)
      with ge True dig False show ?thesis by simp
    next
      case gt: False
      have "parse_loop maxVal n (c # cs) = parse_loop maxVal (dec_step n c) cs"
        using dig False gt by (simp add: dec_step_def)
      also have "\<dots> = (if foldl dec_step (dec_step n c) cs \<le> maxVal
                       then Inr (foldl dec_step (dec_step n c) cs) else Inl ErrRange)"
      proof -
        have le': "dec_step n c \<le> maxVal" using gt by (simp add: dec_step_def)
        show ?thesis using Cons.IH [OF _ Cons.prems(2) le'] Cons.prems(1) by simp
      qed
      finally show ?thesis by simp
    qed
  qed
qed

lemma parse_loop_Inr_digits:
  "parse_loop maxVal n s = Inr v \<Longrightarrow> (\<forall>c \<in> set s. is_digit c)"
  by (induction s arbitrary: n) (auto split: if_splits)

lemma parse_loop_Inr_le:
  "parse_loop maxVal n s = Inr v \<Longrightarrow> n \<le> maxVal \<Longrightarrow> v \<le> maxVal"
  by (induction s arbitrary: n) (auto split: if_splits)

lemma digit_char_of: "is_digit c \<Longrightarrow> digit_char (digit_of c) = c"
  by (simp add: is_digit_def digit_char_def digit_of_def)

lemma digit_of_char: "d < 10 \<Longrightarrow> digit_of (digit_char d) = d"
  by (simp add: digit_char_def digit_of_def)

lemma is_digit_char: "d < 10 \<Longrightarrow> is_digit (digit_char d)"
  by (simp add: digit_char_def is_digit_def)

lemma FormatUint_small: "n < 10 \<Longrightarrow> FormatUint n = [digit_char n]"
  by (subst FormatUint.simps) simp

lemma FormatUint_large:
  "\<not> n < 10 \<Longrightarrow> FormatUint n = FormatUint (n div 10) @ [digit_char (n mod 10)]"
  by (subst FormatUint.simps) simp

lemma FormatUint_digits: "\<forall>c \<in> set (FormatUint n). is_digit c"
proof (induction n rule: FormatUint.induct)
  case (1 n)
  show ?case
  proof (cases "n < 10")
    case True then show ?thesis by (simp add: FormatUint_small is_digit_char)
  next
    case False
    then show ?thesis using 1 by (simp add: FormatUint_large is_digit_char)
  qed
qed

lemma FormatUint_nonempty: "FormatUint n \<noteq> []"
  by (cases "n < 10") (simp_all add: FormatUint_small FormatUint_large)

lemma FormatUint_value: "foldl dec_step 0 (FormatUint n) = n"
proof (induction n rule: FormatUint.induct)
  case (1 n)
  show ?case
  proof (cases "n < 10")
    case True then show ?thesis by (simp add: FormatUint_small dec_step_def digit_of_char)
  next
    case False
    then show ?thesis using 1 by (simp add: FormatUint_large dec_step_def digit_of_char)
  qed
qed

lemma ParseUint_FormatUint:
  assumes "n < 2 ^ bits" and "bits \<le> 64"
  shows "ParseUint (FormatUint n) bits = Inr n"
proof -
  have "(2::nat) ^ bits \<le> 2 ^ 64" using assms(2) by (intro power_increasing) simp_all
  moreover have "(0::nat) < 2 ^ bits" by simp
  ultimately have m: "(2::nat) ^ bits - 1 < 2 ^ 64" by linarith
  have le: "n \<le> 2 ^ bits - 1" using assms(1) by simp
  have "parse_loop (2 ^ bits - 1) 0 (FormatUint n) = Inr n"
    using parse_loop_digits [OF FormatUint_digits m, of 0 n] le
    by (simp only: FormatUint_value if_True le0)
  then show ?thesis
    by (simp add: ParseUint_def FormatUint_nonempty)
qed

lemma Split_nonempty: "Split s sep \<noteq> []"
  by (induction s) (auto, metis cons_first.elims list.distinct(1))

lemma Split_no_sep: "sep \<notin> set s \<Longrightarrow> Split s sep = [s]"
  by (induction s) auto

lemma Split_append_sep: "sep \<notin> set a \<Longrightarrow> Split (a @ sep # b) sep = a # Split b sep"
  by (induction a) auto

lemma Split_single: "Split s sep = [b] \<Longrightarrow> s = b"
proof (induction s arbitrary: b)
  case Nil then show ?case by simp
next
  case (Cons c cs)
  show ?case
  proof (cases "c = sep")
    case True
    with Cons.prems Split_nonempty [of cs sep] show ?thesis by simp
  next
    case False
    with Cons.prems have cf: "cons_first c (Split cs sep) = [b]" by simp
    obtain p ps where sp: "Split cs sep = p # ps"
      using Split_nonempty [of cs sep] by (cases "Split cs sep") auto
    with cf have "ps = []" "b = c # p" by simp_all
    with sp Cons.IH [of p] show ?thesis by simp
  qed
qed

lemma Split_pair: "Split s sep = [a, b] \<Longrightarrow> s = a @ sep # b"
proof (induction s arbitrary: a)
  case Nil then show ?case by simp
next
  case (Cons c cs)
  show ?case
  proof (cases "c = sep")
    case True
    with Cons.prems have "a = []" "Split cs sep = [b]" by simp_all
    with True Split_single [of cs sep b] show ?thesis by simp
  next
    case False
    with Cons.prems have cf: "cons_first c (Split cs sep) = [a, b]" by simp
    obtain p ps where sp: "Split cs sep = p # ps"
      using Split_nonempty [of cs sep] by (cases "Split cs sep") auto
    with cf have "ps = [b]" "a = c # p" by simp_all
    with sp Cons.IH [of p] show ?thesis by simp
  qed
qed

lemma is_digit_not_colon: "is_digit c \<Longrightarrow> c \<noteq> CHR '':''"
  by (auto simp: is_digit_def)

lemma FormatUint_no_colon: "CHR '':'' \<notin> set (FormatUint n)"
  using FormatUint_digits [of n] is_digit_not_colon by blast

lemma of_char_zero: "(of_char c :: nat) = 48 \<Longrightarrow> c = CHR ''0''"
proof -
  assume a: "(of_char c :: nat) = 48"
  have "c = char_of (of_char c :: nat)" by simp
  also have "\<dots> = char_of (of_char CHR ''0'' :: nat)" by (simp add: a)
  also have "\<dots> = CHR ''0''" by (rule char_of_char)
  finally show ?thesis .
qed

lemma digit_of_pos:
  assumes "is_digit c" and "c \<noteq> CHR ''0''"
  shows "0 < digit_of c"
proof -
  have "(of_char c :: nat) \<noteq> 48" using of_char_zero [of c] assms(2) by blast
  moreover have "48 \<le> (of_char c :: nat)" using assms(1) by (simp add: is_digit_def)
  ultimately show ?thesis by (simp add: digit_of_def)
qed

lemma dec_value_pos:
  assumes "s \<noteq> []" "\<forall>c \<in> set s. is_digit c" "no_leading_zero s"
  shows "0 < foldl dec_step 0 s"
proof (cases s)
  case Nil with assms show ?thesis by simp
next
  case (Cons c cs)
  with assms have "is_digit c" "c \<noteq> CHR ''0''" by (simp_all add: no_leading_zero_def)
  then have "0 < digit_of c" by (simp add: digit_of_pos)
  moreover have "dec_step 0 c \<le> foldl dec_step (dec_step 0 c) cs" by (rule foldl_dec_step_ge)
  ultimately show ?thesis using Cons by (simp add: dec_step_def)
qed

lemma digit_of_lt: "is_digit c \<Longrightarrow> digit_of c < 10"
  by (auto simp: is_digit_def digit_of_def)

lemma FormatUint_canonical:
  "s \<noteq> [] \<Longrightarrow> \<forall>c \<in> set s. is_digit c \<Longrightarrow> no_leading_zero s \<Longrightarrow> FormatUint (foldl dec_step 0 s) = s"
proof (induction s rule: rev_induct)
  case Nil then show ?case by simp
next
  case (snoc c xs)
  have dc: "is_digit c" using snoc.prems by simp
  show ?case
  proof (cases "xs = []")
    case True
    then show ?thesis using dc
      by (simp add: dec_step_def digit_of_lt digit_char_of FormatUint_small)
  next
    case False
    have dx: "\<forall>c \<in> set xs. is_digit c" using snoc.prems by simp
    have nz: "no_leading_zero xs" using snoc.prems(3) False
      by (cases xs) (simp_all add: no_leading_zero_def)
    have pos: "0 < foldl dec_step 0 xs" using dec_value_pos [OF False dx nz] .
    let ?v = "foldl dec_step 0 xs"
    have val: "foldl dec_step 0 (xs @ [c]) = ?v * 10 + digit_of c" by (simp add: dec_step_def)
    have ge: "\<not> ?v * 10 + digit_of c < 10" using pos by simp
    have d: "(?v * 10 + digit_of c) div 10 = ?v" using digit_of_lt [OF dc] by simp
    have m: "(?v * 10 + digit_of c) mod 10 = digit_of c" using digit_of_lt [OF dc] by simp
    have "FormatUint (?v * 10 + digit_of c) = FormatUint ?v @ [digit_char (digit_of c)]"
      using FormatUint_large [OF ge] by (simp only: d m)
    then show ?thesis using snoc.IH [OF False dx nz] val dc by (simp add: digit_char_of)
  qed
qed

lemma FormatUint_no_leading_zero: "0 < n \<Longrightarrow> no_leading_zero (FormatUint n)"
proof (induction n rule: FormatUint.induct)
  case (1 n)
  show ?case
  proof (cases "n < 10")
    case True
    have "digit_char n \<noteq> CHR ''0''"
    proof
      assume "digit_char n = CHR ''0''"
      then have "digit_of (digit_char n) = digit_of CHR ''0''" by simp
      then have "n = digit_of CHR ''0''" using True by (simp add: digit_of_char)
      then show False using "1.prems" by (simp add: digit_of_def)
    qed
    then show ?thesis using True by (simp add: FormatUint_small no_leading_zero_def)
  next
    case False
    then have "0 < n div 10" by simp
    then have "no_leading_zero (FormatUint (n div 10))" using "1.IH" False by simp
    moreover have "FormatUint n = FormatUint (n div 10) @ [digit_char (n mod 10)]"
      using False by (rule FormatUint_large)
    ultimately show ?thesis
      using FormatUint_nonempty [of "n div 10"]
      by (cases "FormatUint (n div 10)") (simp_all add: no_leading_zero_def)
  qed
qed

lemma ParseUint_Inr:
  assumes "ParseUint s bits = Inr v"
  shows "s \<noteq> [] \<and> (\<forall>c \<in> set s. is_digit c) \<and> v = foldl dec_step 0 s \<and> v < 2 ^ bits"
proof -
  from assms have ne: "s \<noteq> []" and pl: "parse_loop (2 ^ bits - 1) 0 s = Inr v"
    by (auto simp: ParseUint_def split: if_splits)
  have dg: "\<forall>c \<in> set s. is_digit c" using pl by (rule parse_loop_Inr_digits)
  have le: "v \<le> 2 ^ bits - 1" using parse_loop_Inr_le [OF pl] by simp
  have "(0::nat) < 2 ^ bits" by simp
  with le have lt: "v < 2 ^ bits" by linarith
  have val: "parse_loop maxVal n s = Inr v \<Longrightarrow> v = foldl dec_step n s" for maxVal n
    by (induction s arbitrary: n) (auto simp: dec_step_def split: if_splits)
  from ne dg val [OF pl] lt show ?thesis by simp
qed

lemma getComponent_Ok:
  assumes "getComponent str n bits az = Ok w"
  shows "\<exists>v. str \<noteq> [] \<and> n < length (Split str CHR '':'')
           \<and> ParseUint (Split str CHR '':'' ! n) bits = Inr v \<and> (v \<noteq> 0 \<or> az) \<and> w = word_of_nat v"
  using assms
  by (auto simp: getComponent_def index_def split: if_splits sum.splits)

lemma unat_of_nat64: "v < 2 ^ 64 \<Longrightarrow> unat (word_of_nat v :: 64 word) = v"
  by (simp add: unat_of_nat)

lemma unat_ucast_of_nat32: "v < 2 ^ 32 \<Longrightarrow> unat (ucast (word_of_nat v :: 64 word) :: 32 word) = v"
  by (simp add: unsigned_ucast_eq unat_of_nat take_bit_nat_def)

lemma GetId_Ok:
  assumes "GetId s = Ok i"
  shows "\<exists>v. s \<noteq> [] \<and> ParseUint (Split s CHR '':'' ! 0) 32 = Inr v \<and> v \<noteq> 0 \<and> v < 2 ^ 32 \<and> unat i = v"
proof -
  from assms obtain w where g: "getComponent s 0 32 False = Ok w" and i: "i = ucast w"
    by (auto simp: GetId_def split: result.splits)
  from getComponent_Ok [OF g] obtain v where ne: "s \<noteq> []"
    and p: "ParseUint (Split s CHR '':'' ! 0) 32 = Inr v" and nz: "v \<noteq> 0" and w: "w = word_of_nat v"
    by auto
  from ParseUint_Inr [OF p] have lt: "v < 2 ^ 32" by simp
  have "unat i = v" using unat_ucast_of_nat32 [OF lt] i w by simp
  with ne p nz lt show ?thesis by blast
qed

lemma GetUid_Ok:
  assumes "GetUid s = Ok u"
  shows "\<exists>v. s \<noteq> [] \<and> 1 < length (Split s CHR '':'') \<and> ParseUint (Split s CHR '':'' ! 1) 64 = Inr v
            \<and> v \<noteq> 0 \<and> v < 2 ^ 64 \<and> unat u = v"
proof -
  from getComponent_Ok [OF assms [unfolded GetUid_def]] obtain v where ne: "s \<noteq> []"
    and len: "1 < length (Split s CHR '':'')"
    and p: "ParseUint (Split s CHR '':'' ! 1) 64 = Inr v" and nz: "v \<noteq> 0" and w: "u = word_of_nat v"
    by auto
  from ParseUint_Inr [OF p] have lt: "v < 2 ^ 64" by simp
  have "unat u = v" using unat_of_nat64 [OF lt] w by simp
  with ne len p nz lt show ?thesis by blast
qed

lemma GetId_nonzero: "GetId s \<noteq> Ok 0"
proof
  assume "GetId s = Ok 0"
  from GetId_Ok [OF this] show False by auto
qed

lemma GetUid_nonzero: "GetUid s \<noteq> Ok 0"
proof
  assume "GetUid s = Ok 0"
  from GetUid_Ok [OF this] show False by auto
qed

lemma GetUidAllowZero_eq:
  "GetUidAllowZero s = (if GetUid s = Err (ComponentIsZero 1) then Ok 0 else GetUid s)"
  by (auto simp: GetUidAllowZero_def GetUid_def getComponent_def index_def
      split: result.splits sum.splits if_splits)

text \<open>
  Claim C4, as the code has it. The strict accessors \<open>GetId\<close> and \<open>GetUid\<close> never
  return zero without an error, on any string. The relaxed accessor of iduid.go is
  \<open>GetUidAllowZero\<close>: it reads the uid position, not the id position, and returns what
  \<open>GetUid\<close> returns except that a zero uid component is returned as 0 with no error.
\<close>

theorem C4_zero_components:
  "GetId s \<noteq> Ok 0 \<and> GetUid s \<noteq> Ok 0
   \<and> GetUidAllowZero s = (if GetUid s = Err (ComponentIsZero 1) then Ok 0 else GetUid s)"
  using GetId_nonzero GetUid_nonzero GetUidAllowZero_eq by blast

text \<open>The three accessors at \<open>1:0\<close>, whose uid component is zero.\<close>

theorem C4_zero_components_witness:
  "GetId ''1:0'' \<noteq> Ok 0 \<and> GetUid ''1:0'' = Err (ComponentIsZero 1) \<and> GetUidAllowZero ''1:0'' = Ok 0"
proof -
  have "GetUid ''1:0'' = Err (ComponentIsZero 1)"
    by (simp add: GetUid_def getComponent_def index_def ParseUint_def is_digit_def digit_of_def
        cutoff_def)
  with C4_zero_components [of "''1:0''"] show ?thesis by simp
qed

lemma FormatInt_uint: "FormatInt (uint (i :: 32 word)) = FormatUint (unat i)"
  by (simp add: FormatInt_def)

lemma Split_CreateIdUid:
  "Split (CreateIdUid i uid) CHR '':'' = [FormatUint (unat i), FormatUint (unat uid)]"
  by (simp add: CreateIdUid_def FormatInt_uint Split_append_sep FormatUint_no_colon Split_no_sep)

lemma unat_lt32: "unat (i :: 32 word) < 2 ^ 32"
  using unsigned_less [of i, where 'a = nat] by simp

lemma unat_lt64: "unat (i :: 64 word) < 2 ^ 64"
  using unsigned_less [of i, where 'a = nat] by simp

lemma CreateIdUid_nonempty: "CreateIdUid i uid \<noteq> []"
  by (simp add: CreateIdUid_def)

lemma GetId_CreateIdUid:
  assumes "i \<noteq> 0" shows "GetId (CreateIdUid i uid) = Ok i"
proof -
  have p: "ParseUint (FormatUint (unat i)) 32 = Inr (unat i)"
    by (rule ParseUint_FormatUint [OF unat_lt32]) simp
  have nz: "unat i \<noteq> 0" using assms by (simp add: unat_eq_0)
  have "unat (ucast (word_of_nat (unat i) :: 64 word) :: 32 word) = unat i"
    by (rule unat_ucast_of_nat32 [OF unat_lt32])
  then have "ucast (word_of_nat (unat i) :: 64 word) = i"
    by (simp only: word_unat_eq_iff)
  then show ?thesis using p nz
    by (simp add: GetId_def getComponent_def index_def Split_CreateIdUid CreateIdUid_nonempty)
qed

lemma GetUid_CreateIdUid:
  assumes "uid \<noteq> 0" shows "GetUid (CreateIdUid i uid) = Ok uid"
proof -
  have p: "ParseUint (FormatUint (unat uid)) 64 = Inr (unat uid)"
    by (rule ParseUint_FormatUint [OF unat_lt64]) simp
  have nz: "unat uid \<noteq> 0" using assms by (simp add: unat_eq_0)
  show ?thesis using p nz
    by (simp add: GetUid_def getComponent_def index_def Split_CreateIdUid CreateIdUid_nonempty)
qed

lemma Validate_CreateIdUid:
  "i \<noteq> 0 \<Longrightarrow> uid \<noteq> 0 \<Longrightarrow> Validate (CreateIdUid i uid) = Ok ()"
  by (simp add: Validate_def GetId_CreateIdUid GetUid_CreateIdUid Split_CreateIdUid)

lemma Validate_canonical_roundtrip:
  assumes v: "Validate s = Ok ()" and c: "canonical s"
  shows "\<exists>i uid. GetId s = Ok i \<and> GetUid s = Ok uid \<and> CreateIdUid i uid = s"
proof -
  from v obtain i uid where gi: "GetId s = Ok i" and gu: "GetUid s = Ok uid"
    and len: "length (Split s CHR '':'') = 2"
    by (auto simp: Validate_def split: result.splits if_splits)
  from len obtain a b where sp: "Split s CHR '':'' = [a, b]"
    by (cases "Split s CHR '':''"; cases "tl (Split s CHR '':'')") auto
  from Split_pair [OF sp] have s: "s = a @ CHR '':'' # b" .
  from c sp have ca: "no_leading_zero a" and cb: "no_leading_zero b"
    by (simp_all add: canonical_def)
  from GetId_Ok [OF gi] sp obtain va where pa: "ParseUint a 32 = Inr va" and ia: "unat i = va"
    by auto
  from GetUid_Ok [OF gu] sp obtain vb where pb: "ParseUint b 64 = Inr vb" and ub: "unat uid = vb"
    by auto
  from ParseUint_Inr [OF pa] have a: "a \<noteq> []" "\<forall>c \<in> set a. is_digit c" "va = foldl dec_step 0 a"
    by simp_all
  from ParseUint_Inr [OF pb] have b: "b \<noteq> []" "\<forall>c \<in> set b. is_digit c" "vb = foldl dec_step 0 b"
    by simp_all
  have fa: "FormatUint (unat i) = a" using FormatUint_canonical [OF a(1) a(2) ca] ia a(3) by simp
  have fb: "FormatUint (unat uid) = b" using FormatUint_canonical [OF b(1) b(2) cb] ub b(3) by simp
  have "CreateIdUid i uid = s" using fa fb s by (simp add: CreateIdUid_def FormatInt_uint)
  with gi gu show ?thesis by blast
qed

lemma roundtrip_canonical:
  assumes gi: "GetId s = Ok i" and gu: "GetUid s = Ok uid" and eq: "CreateIdUid i uid = s"
  shows "canonical s"
proof -
  from GetId_Ok [OF gi] have "0 < unat i" by auto
  moreover from GetUid_Ok [OF gu] have "0 < unat uid" by auto
  ultimately show ?thesis
    using Split_CreateIdUid [of i uid] eq by (simp add: canonical_def FormatUint_no_leading_zero)
qed

text \<open>
  Claim C5, amended. For every non-zero 32-bit id and non-zero 64-bit uid, parsing
  \<open>CreateIdUid i uid\<close> with \<open>GetId\<close> and \<open>GetUid\<close> returns \<open>i\<close> and \<open>uid\<close> without
  error, and \<open>Validate\<close> accepts the string. For a string \<open>s\<close> that \<open>Validate\<close> accepts,
  serializing the parsed components gives back \<open>s\<close> character for character exactly when
  \<open>s\<close> is canonical, that is, when neither component is written with a leading zero.
\<close>

theorem C5_identifier_roundtrip:
  "(i \<noteq> 0 \<and> uid \<noteq> 0 \<longrightarrow>
      GetId (CreateIdUid i uid) = Ok i \<and> GetUid (CreateIdUid i uid) = Ok uid
      \<and> Validate (CreateIdUid i uid) = Ok ())
   \<and> (Validate s = Ok () \<longrightarrow>
      ((\<exists>j u. GetId s = Ok j \<and> GetUid s = Ok u \<and> CreateIdUid j u = s) \<longleftrightarrow> canonical s))"
  using GetId_CreateIdUid GetUid_CreateIdUid Validate_CreateIdUid
    Validate_canonical_roundtrip roundtrip_canonical by blast

text \<open>The round trip at the identifier \<open>7:42\<close>.\<close>

theorem C5_identifier_roundtrip_witness:
  "GetId (CreateIdUid 7 42) = Ok 7 \<and> GetUid (CreateIdUid 7 42) = Ok 42
   \<and> Validate ''7:42'' = Ok () \<and> canonical ''7:42''
   \<and> (\<exists>j u. GetId ''7:42'' = Ok j \<and> GetUid ''7:42'' = Ok u \<and> CreateIdUid j u = ''7:42'')"
proof -
  have v: "Validate ''7:42'' = Ok ()"
    by (simp add: Validate_def GetId_def GetUid_def getComponent_def index_def ParseUint_def
        is_digit_def digit_of_def cutoff_def)
  have c: "canonical ''7:42''" by (simp add: canonical_def no_leading_zero_def)
  have nz: "(7 :: Id) \<noteq> 0 \<and> (42 :: Uid) \<noteq> 0" by simp
  from C5_identifier_roundtrip [of 7 42 "''7:42''"] v c nz show ?thesis by blast
qed

text \<open>
  The string \<open>01:2\<close> is accepted by \<open>Validate\<close>, since \<open>strconv.ParseUint\<close> accepts
  leading zeros, and its components serialize to \<open>1:2\<close>, a different string.
\<close>

theorem C5_leading_zero_counterexample:
  "Validate ''01:2'' = Ok () \<and> GetId ''01:2'' = Ok 1 \<and> GetUid ''01:2'' = Ok 2
   \<and> CreateIdUid 1 2 = ''1:2'' \<and> CreateIdUid 1 2 \<noteq> ''01:2''"
proof -
  have "Validate ''01:2'' = Ok () \<and> GetId ''01:2'' = Ok 1 \<and> GetUid ''01:2'' = Ok 2"
    by (simp add: Validate_def GetId_def GetUid_def getComponent_def index_def ParseUint_def
        is_digit_def digit_of_def cutoff_def)
  moreover have "CreateIdUid 1 2 = ''1:2''"
    by code_simp
  ultimately show ?thesis by simp
qed

text \<open>
  The relaxed accessor returns a zero uid without error, so it is not true that no
  accessor does.
\<close>

theorem C4_relaxed_uid_counterexample:
  "GetUidAllowZero ''1:0'' = Ok 0"
  by (simp add: GetUidAllowZero_def getComponent_def index_def ParseUint_def
      is_digit_def digit_of_def cutoff_def)

text \<open>
  Claim C1 at the string \<open>5\<close>, which holds no separator: \<open>strings.Split\<close> returns one
  element, \<open>getComponent\<close> indexes it at 1, and both \<open>GetUid\<close> and \<open>Validate\<close> (which
  calls \<open>GetUid\<close> first, before its own test of the number of components) panic with an
  index out of range instead of returning an error value.
\<close>

theorem C1_missing_separator_panics:
  "GetUid ''5'' = Panic IndexOutOfRange \<and> Validate ''5'' = Panic IndexOutOfRange"
  by (simp add: Validate_def GetUid_def getComponent_def index_def)

section \<open>Properties of the schema reader\<close>

lemma readObjectField_Inr:
  assumes "readObjectField t entity field = Inr entity'"
  shows "\<exists>p. ent_Properties entity' = ent_Properties entity @ [p] \<and> prop_Id p = CreateIdUid 0 0
            \<and> prop_Name p = fbfield_Name field
            \<and> ent_Id entity' = ent_Id entity \<and> ent_Name entity' = ent_Name entity"
  using assms
  by (auto simp: readObjectField_def CreateProperty_def Let_def split: option.splits if_splits sum.splits)

lemma readFields_Inr:
  "readFields t object i entity = Inr entity' \<Longrightarrow> identifier_unset entity
     \<Longrightarrow> identifier_unset entity' \<and> ent_Name entity' = ent_Name entity"
proof (induction t object i entity rule: readFields.induct)
  case (1 t object i entity)
  show ?case
  proof (cases "i < FieldsLength object")
    case False
    with "1.prems" show ?thesis by (simp add: readFields.simps [of t object i entity])
  next
    case True
    with "1.prems"(1) obtain field e1 where f: "Fields object i = Some field"
      and r: "readObjectField t entity field = Inr e1"
      and rest: "readFields t object (Suc i) e1 = Inr entity'"
      by (auto simp: readFields.simps [of t object i entity] split: option.splits sum.splits)
    from readObjectField_Inr [OF r] "1.prems"(2) have u: "identifier_unset e1"
      and n: "ent_Name e1 = ent_Name entity"
      by (auto simp: identifier_unset_def)
    from "1.IH" [OF True f r rest u] n show ?thesis by simp
  qed
qed

lemma readObject_Inr:
  assumes "readObject t model object = Inr model'"
  shows "\<exists>e. Entities model' = Entities model @ [e] \<and> identifier_unset e
            \<and> ent_Name e = fbobject_Name object"
proof -
  let ?e0 = "(CreateEntity model 0 0)\<lparr>ent_Name := fbobject_Name object\<rparr>"
  from assms obtain e where r: "readFields t object 0 ?e0 = Inr e"
    and m: "model' = model\<lparr>Entities := Entities model @ [e]\<rparr>"
    by (auto simp: readObject_def Let_def split: sum.splits)
  have "identifier_unset ?e0" by (simp add: identifier_unset_def CreateEntity_def)
  from readFields_Inr [OF r this] m show ?thesis by simp
qed

lemma readObjects_Inr:
  "readObjects t schema i model = Inr model' \<Longrightarrow>
     \<exists>new. Entities model' = Entities model @ new \<and> list_all identifier_unset new
          \<and> map ent_Name new = map fbobject_Name (drop i (fbschema_Objects schema))"
proof (induction t schema i model rule: readObjects.induct)
  case (1 t schema i model)
  show ?case
  proof (cases "i < ObjectsLength schema")
    case False
    with "1.prems" show ?thesis
      by (simp add: readObjects.simps [of t schema i model] ObjectsLength_def)
  next
    case True
    with "1.prems"(1) obtain object m1 where f: "Objects schema i = Some object"
      and r: "readObject t model object = Inr m1"
      and rest: "readObjects t schema (Suc i) m1 = Inr model'"
      by (auto simp: readObjects.simps [of t schema i model] split: option.splits sum.splits)
    from readObject_Inr [OF r] obtain e where e: "Entities m1 = Entities model @ [e]"
      "identifier_unset e" "ent_Name e = fbobject_Name object" by blast
    from "1.IH" [OF True f r rest] obtain new where new: "Entities model' = Entities m1 @ new"
      "list_all identifier_unset new"
      "map ent_Name new = map fbobject_Name (drop (Suc i) (fbschema_Objects schema))" by blast
    from f True have o: "object = fbschema_Objects schema ! i" and lt: "i < length (fbschema_Objects schema)"
      by (simp_all add: Objects_def ObjectsLength_def split: if_splits)
    have "drop i (fbschema_Objects schema) = object # drop (Suc i) (fbschema_Objects schema)"
      using o lt by (simp add: Cons_nth_drop_Suc)
    with e new have "Entities model' = Entities model @ (e # new) \<and> list_all identifier_unset (e # new)
       \<and> map ent_Name (e # new) = map fbobject_Name (drop i (fbschema_Objects schema))"
      by simp
    then show ?thesis by blast
  qed
qed

lemma zero_identifier: "CreateIdUid 0 0 = ''0:0''"
  by code_simp

lemma zero_identifier_components:
  "GetIdAllowZero ''0:0'' = Ok 0 \<and> GetUidAllowZero ''0:0'' = Ok 0"
  by (simp add: GetIdAllowZero_def GetUidAllowZero_def getComponent_def index_def ParseUint_def
      is_digit_def digit_of_def cutoff_def)

text \<open>
  Claim C7. When the reader succeeds on a schema, the model holds one new entity per
  object of the schema, in order and under the object's name, and every new entity and
  every property of it carries the identifier \<open>CreateIdUid 0 0\<close>, the string \<open>0:0\<close>,
  whose id and uid components are both zero: the reader assigns no identifier component.
\<close>

theorem C7_reader_leaves_identifiers_unset:
  assumes "read fbTypeToObxType schema model = Inr model'"
  shows "\<exists>new. Entities model' = Entities model @ new
           \<and> map ent_Name new = map fbobject_Name (fbschema_Objects schema)
           \<and> list_all identifier_unset new
           \<and> CreateIdUid 0 0 = ''0:0''
           \<and> GetIdAllowZero (CreateIdUid 0 0) = Ok 0 \<and> GetUidAllowZero (CreateIdUid 0 0) = Ok 0"
  using readObjects_Inr [OF assms [unfolded read_def]] zero_identifier zero_identifier_components
  by (metis drop0)

text \<open>
  The table \<open>Item\<close> of the parser's test schema, with its two fields in the order given.
\<close>

lemma read_being:
  "read sample_type_table being_schema empty_model = Inr (empty_model\<lparr>Entities :=
     [\<lparr>ent_Name = ''Item'', ent_Id = ''0:0'',
       ent_Properties = [\<lparr>prop_Name = ''name'', prop_Id = ''0:0'', prop_Type = PropertyTypeString,
                           prop_Flags = [], prop_IndexId = None, prop_UidRequest = False\<rparr>,
                         \<lparr>prop_Name = ''weight'', prop_Id = ''0:0'', prop_Type = PropertyTypeShort,
                           prop_Flags = [], prop_IndexId = None, prop_UidRequest = False\<rparr>],
       ent_CurrentlyPresent = False, ent_Meta = None\<rparr>]\<rparr>)"
  by (simp add: read_def being_schema_def sample_type_table_def empty_model_def ObjectsLength_def
      Objects_def FieldsLength_def Fields_def readObject_def readObjectField_def
      readObjects.simps readFields.simps CreateEntity_def CreateProperty_def zero_identifier)

text \<open>The reader on the table \<open>Item\<close>, started on the empty model.\<close>

theorem C7_reader_leaves_identifiers_unset_witness:
  "list_all identifier_unset
     [\<lparr>ent_Name = ''Item'', ent_Id = ''0:0'',
       ent_Properties = [\<lparr>prop_Name = ''name'', prop_Id = ''0:0'', prop_Type = PropertyTypeString,
                           prop_Flags = [], prop_IndexId = None, prop_UidRequest = False\<rparr>,
                         \<lparr>prop_Name = ''weight'', prop_Id = ''0:0'', prop_Type = PropertyTypeShort,
                           prop_Flags = [], prop_IndexId = None, prop_UidRequest = False\<rparr>],
       ent_CurrentlyPresent = False, ent_Meta = None\<rparr>]
   \<and> CreateIdUid 0 0 = ''0:0''"
  using C7_reader_leaves_identifiers_unset [OF read_being]
  by (auto simp: empty_model_def)

section \<open>Properties of the annotation processing\<close>

lemma and_then_Inr_None [simp]: "and_then (Inr (None, field)) k = k field"
  by (simp add: and_then_def)



lemma annotation_single:
  "annotation [k \<mapsto> Some x] key = (if key = k then Some x else None)"
  by (simp add: annotation_def)



lemma GetIdAllowZero_no_panic: "GetIdAllowZero s \<noteq> Panic p"
proof -
  have "0 < length (Split s CHR '':'')" using Split_nonempty [of s "CHR '':''"] by simp
  then show ?thesis
    by (simp add: GetIdAllowZero_def getComponent_def index_def split: result.splits sum.splits)
qed

lemma annotation_remove:
  "annotation (a(k := None)) key = (if key = k then None else annotation a key)"
  by (simp add: annotation_def)

lemma ProcessAnnotations_uid_last:
  assumes "annotation a ''-'' = None"
  shows "ProcessAnnotations ops field a =
           and_then (ProcessAnnotations ops field (a(''uid'' := None))) (annotation_uid a)"
proof -
  let ?b = "a(''uid'' := None)"
  have same: "annotation_id ops ?b = annotation_id ops a"
    "annotation_name ops ?b = annotation_name ops a"
    "annotation_date ?b = annotation_date a"
    "annotation_index ops ?b = annotation_index ops a"
    "annotation_unique ops ?b = annotation_unique ops a"
    by (rule ext; simp add: annotation_id_def annotation_name_def annotation_date_def
        annotation_index_def annotation_unique_def annotation_remove)+
  have none: "annotation_uid ?b f = Inr (None, f)" for f
    by (simp add: annotation_uid_def annotation_remove)
  have skip: "annotation ?b ''-'' = None" using assms by (simp add: annotation_remove)
  show ?thesis
    unfolding ProcessAnnotations_def assms skip same
    by (auto simp: and_then_def none split: sum.splits option.splits prod.splits)
qed

lemma GetIdAllowZero_CreateIdUid: "GetIdAllowZero (CreateIdUid i uid) = Ok i"
proof -
  have p: "ParseUint (FormatUint (unat i)) 32 = Inr (unat i)"
    by (rule ParseUint_FormatUint [OF unat_lt32]) simp
  have "unat (ucast (word_of_nat (unat i) :: 64 word) :: 32 word) = unat i"
    by (rule unat_ucast_of_nat32 [OF unat_lt32])
  then have "ucast (word_of_nat (unat i) :: 64 word) = i"
    by (simp only: word_unat_eq_iff)
  then show ?thesis using p
    by (simp add: GetIdAllowZero_def getComponent_def index_def Split_CreateIdUid CreateIdUid_nonempty)
qed

lemma annotation_uid_present:
  assumes "annotation a ''uid'' = Some u" and "Value u \<noteq> []"
  shows "annotation_uid a field' =
     (case ParseUint (Value u) 64 of
        Inl err \<Rightarrow> Inr (Some (CantParseUid err), field')
      | Inr uid \<Rightarrow>
          (case GetIdAllowZero (prop_Id (field_property field')) of
             Panic p \<Rightarrow> Inl p
           | Err err \<Rightarrow> Inr (Some (CantParsePropertyId err), field')
           | Ok i \<Rightarrow>
               Inr (None, field'\<lparr>field_property :=
                 (field_property field')\<lparr>prop_Id := CreateIdUid i (word_of_nat uid)\<rparr>\<rparr>)))"
  using assms by (simp add: annotation_uid_def)

text \<open>
  Claim C10, amended. Let the property carry a uid annotation with a non-empty value,
  and let there be no \<open>-\<close> annotation. The uid block runs last, on the field that the
  other annotations leave. If one of them fails, that error is returned and the uid
  annotation rewrites nothing. If they succeed, leaving \<open>field'\<close>: a value that does not
  parse as an unsigned 64-bit number, or an identifier of \<open>field'\<close> whose id component
  cannot be read, is an error that leaves \<open>field'\<close> as it is; otherwise the result is
  \<open>field'\<close> with the identifier of its property replaced by \<open>CreateIdUid i uid\<close>, where
  \<open>uid\<close> is the requested uid and \<open>i\<close> the id component of the previous identifier, and
  nothing else of the field or the property is changed. In particular, when the previous
  identifier is \<open>CreateIdUid i\<^sub>0 u\<^sub>0\<close> (the id \<open>i\<^sub>0\<close> may be zero), the new one is
  \<open>CreateIdUid i\<^sub>0 uid\<close>.
\<close>

theorem C10_uid_annotation:
  assumes "annotation a ''-'' = None"
    and "annotation a ''uid'' = Some u"
    and "Value u \<noteq> []"
  shows "ProcessAnnotations ops field a =
     (case ProcessAnnotations ops field (a(''uid'' := None)) of
        Inl p \<Rightarrow> Inl p
      | Inr (Some err, field') \<Rightarrow> Inr (Some err, field')
      | Inr (None, field') \<Rightarrow>
          (case ParseUint (Value u) 64 of
             Inl err \<Rightarrow> Inr (Some (CantParseUid err), field')
           | Inr uid \<Rightarrow>
               (case GetIdAllowZero (prop_Id (field_property field')) of
                  Panic p \<Rightarrow> Inl p
                | Err err \<Rightarrow> Inr (Some (CantParsePropertyId err), field')
                | Ok i \<Rightarrow>
                    Inr (None, field'\<lparr>field_property :=
                      (field_property field')\<lparr>prop_Id := CreateIdUid i (word_of_nat uid)\<rparr>\<rparr>))))
   \<and> (ParseUint (Value u) 64 = Inr uid
        \<and> ProcessAnnotations ops field (a(''uid'' := None)) = Inr (None, field')
        \<and> prop_Id (field_property field') = CreateIdUid i\<^sub>0 u\<^sub>0 \<longrightarrow>
      ProcessAnnotations ops field a =
        Inr (None, field'\<lparr>field_property :=
          (field_property field')\<lparr>prop_Id := CreateIdUid i\<^sub>0 (word_of_nat uid)\<rparr>\<rparr>))"
proof -
  have eq: "ProcessAnnotations ops field a =
           and_then (ProcessAnnotations ops field (a(''uid'' := None))) (annotation_uid a)"
    by (rule ProcessAnnotations_uid_last [OF assms(1)])
  have full: "ProcessAnnotations ops field a =
     (case ProcessAnnotations ops field (a(''uid'' := None)) of
        Inl p \<Rightarrow> Inl p
      | Inr (Some err, field') \<Rightarrow> Inr (Some err, field')
      | Inr (None, field') \<Rightarrow>
          (case ParseUint (Value u) 64 of
             Inl err \<Rightarrow> Inr (Some (CantParseUid err), field')
           | Inr uid \<Rightarrow>
               (case GetIdAllowZero (prop_Id (field_property field')) of
                  Panic p \<Rightarrow> Inl p
                | Err err \<Rightarrow> Inr (Some (CantParsePropertyId err), field')
                | Ok i \<Rightarrow>
                    Inr (None, field'\<lparr>field_property :=
                      (field_property field')\<lparr>prop_Id := CreateIdUid i (word_of_nat uid)\<rparr>\<rparr>))))"
    unfolding eq and_then_def
    by (simp add: annotation_uid_present [OF assms(2,3)] split: sum.splits prod.splits option.splits)
  have pinned: "ProcessAnnotations ops field a =
        Inr (None, field'\<lparr>field_property :=
          (field_property field')\<lparr>prop_Id := CreateIdUid i\<^sub>0 (word_of_nat uid)\<rparr>\<rparr>)"
    if "ParseUint (Value u) 64 = Inr uid"
      and "ProcessAnnotations ops field (a(''uid'' := None)) = Inr (None, field')"
      and "prop_Id (field_property field') = CreateIdUid i\<^sub>0 u\<^sub>0"
    using that by (simp add: full GetIdAllowZero_CreateIdUid)
  from full pinned show ?thesis by blast
qed

text \<open>
  The annotation \<open>uid\<close> with the value 42 on a property whose identifier is \<open>3:7\<close>: the
  identifier becomes \<open>3:42\<close>.
\<close>

theorem C10_uid_annotation_witness:
  "ProcessAnnotations sample_ops
     ((sample_field PropertyTypeLong)\<lparr>field_property :=
         (field_property (sample_field PropertyTypeLong))\<lparr>prop_Id := ''3:7''\<rparr>\<rparr>)
     [''uid'' \<mapsto> Some \<lparr>Value = ''42''\<rparr>]
     = Inr (None, (sample_field PropertyTypeLong)\<lparr>field_property :=
         (field_property (sample_field PropertyTypeLong))\<lparr>prop_Id := ''3:42''\<rparr>\<rparr>)"
proof -
  let ?a = "[''uid'' \<mapsto> Some \<lparr>Value = ''42''\<rparr>]"
  let ?f = "(sample_field PropertyTypeLong)\<lparr>field_property :=
         (field_property (sample_field PropertyTypeLong))\<lparr>prop_Id := ''3:7''\<rparr>\<rparr>"
  have 1: "annotation ?a ''-'' = None" by (simp add: annotation_single)
  have 2: "annotation ?a ''uid'' = Some \<lparr>Value = ''42''\<rparr>" by (simp add: annotation_single)
  have 3: "Value \<lparr>Value = ''42''\<rparr> \<noteq> []" by simp
  have 4: "ParseUint (Value \<lparr>Value = ''42''\<rparr>) 64 = Inr 42"
    by (simp add: ParseUint_def is_digit_def digit_of_def cutoff_def)
  have 5: "ProcessAnnotations sample_ops ?f (?a(''uid'' := None)) = Inr (None, ?f)"
    by (simp add: ProcessAnnotations_def annotation_def annotation_id_def annotation_name_def
        annotation_date_def annotation_index_def annotation_unique_def annotation_uid_def)
  have 6: "CreateIdUid 3 7 = ''3:7''" by code_simp
  have 7: "CreateIdUid 3 42 = ''3:42''" by code_simp
  have 8: "prop_Id (field_property ?f) = CreateIdUid 3 7" by (simp add: 6)
  from C10_uid_annotation [OF 1 2 3, of sample_ops ?f 42 ?f 3 7] 4 5 8
  have "ProcessAnnotations sample_ops ?f ?a =
          Inr (None, ?f\<lparr>field_property := (field_property ?f)\<lparr>prop_Id := CreateIdUid 3 (word_of_nat 42)\<rparr>\<rparr>)"
    by blast
  then show ?thesis by (simp add: 7)
qed

text \<open>
  The annotation \<open>uid\<close> with the value 42 beside a date annotation on a property of type
  String: the date block fails, an error is returned and the identifier is still
  \<open>0:0\<close>. The same annotation alone on a property whose identifier is empty: the id
  component cannot be read, an error is returned and the identifier is still empty.
\<close>

theorem C10_uid_not_rewritten_counterexample:
  "ProcessAnnotations sample_ops (sample_field PropertyTypeString)
     [''date'' \<mapsto> Some \<lparr>Value = []\<rparr>, ''uid'' \<mapsto> Some \<lparr>Value = ''42''\<rparr>]
     = Inr (Some (InvalidDateType PropertyTypeString), sample_field PropertyTypeString)
   \<and> prop_Id (field_property (sample_field PropertyTypeString)) = ''0:0''
   \<and> ProcessAnnotations sample_ops
       ((sample_field PropertyTypeLong)\<lparr>field_property :=
          (field_property (sample_field PropertyTypeLong))\<lparr>prop_Id := []\<rparr>\<rparr>)
       [''uid'' \<mapsto> Some \<lparr>Value = ''42''\<rparr>]
     = Inr (Some (CantParsePropertyId (ComponentUndefined 0)),
         (sample_field PropertyTypeLong)\<lparr>field_property :=
           (field_property (sample_field PropertyTypeLong))\<lparr>prop_Id := []\<rparr>\<rparr>)"
proof -
  have "ProcessAnnotations sample_ops (sample_field PropertyTypeString)
     [''date'' \<mapsto> Some \<lparr>Value = []\<rparr>, ''uid'' \<mapsto> Some \<lparr>Value = ''42''\<rparr>]
     = Inr (Some (InvalidDateType PropertyTypeString), sample_field PropertyTypeString)"
    by (simp add: ProcessAnnotations_def annotation_def annotation_id_def annotation_name_def
        annotation_date_def sample_field_def and_then_def)
  moreover have "prop_Id (field_property (sample_field PropertyTypeString)) = ''0:0''"
    by (simp add: sample_field_def)
  moreover have "ProcessAnnotations sample_ops
       ((sample_field PropertyTypeLong)\<lparr>field_property :=
          (field_property (sample_field PropertyTypeLong))\<lparr>prop_Id := []\<rparr>\<rparr>)
       [''uid'' \<mapsto> Some \<lparr>Value = ''42''\<rparr>]
     = Inr (Some (CantParsePropertyId (ComponentUndefined 0)),
         (sample_field PropertyTypeLong)\<lparr>field_property :=
           (field_property (sample_field PropertyTypeLong))\<lparr>prop_Id := []\<rparr>\<rparr>)"
    by (simp add: ProcessAnnotations_def annotation_def annotation_id_def annotation_name_def
        annotation_date_def annotation_index_def annotation_unique_def annotation_uid_def
        sample_field_def and_then_def ParseUint_def is_digit_def digit_of_def cutoff_def
        GetIdAllowZero_def getComponent_def)
  ultimately show ?thesis by simp
qed

section \<open>Properties of the generator\<close>

lemma pathForEach_invariant:
  fixes I :: "'s \<Rightarrow> bool" and R :: "ret \<Rightarrow> 's \<Rightarrow> bool"
    and fn :: "string \<Rightarrow> 's \<Rightarrow> ret \<times> 's" and env :: "('w, 'r) Env"
  assumes step: "\<And>p s res s'. I s \<Longrightarrow> fn p s = (res, s') \<Longrightarrow> R res s'"
    and stay: "\<And>s res. I s \<Longrightarrow> R res s"
    and cont: "\<And>s. R RetNil s \<Longrightarrow> I s"
  shows "I s \<Longrightarrow> pathForEach env wo depth path fn s = (res, s') \<Longrightarrow> R res s'"
    and "I s \<Longrightarrow> forEachMatch env wo depth recursive matches fn s = (res, s') \<Longrightarrow> R res s'"
  using assms
proof (induction env wo depth path fn s and env wo depth recursive matches fn s
    arbitrary: res s' and res s' rule: pathForEach_forEachMatch.induct)
  case (1 env wo path fn s)
  from "1.prems"(2) have "res = RetOutOfFuel" "s' = s" by simp_all
  with "1.prems"(4) [OF "1.prems"(1)] show ?case by simp
next
  case (2 env wo depth path fn s)
  let ?recursive = "HasSuffix path recursionSuffix"
  let ?pattern = "if ?recursive
             then take (length path - length recursionSuffix) path @ ''/*''
             else (case os_Stat env path (wo s) of
                     Inr finfo \<Rightarrow> if IsDir finfo then path @ ''/*'' else path
                   | Inl err \<Rightarrow> path)"
  show ?case
  proof (cases "filepath_Glob env ?pattern (wo s)")
    case (Inl err)
    with "2.prems"(2) have "res = RetErr err" "s' = s" by (simp_all add: Let_def)
    with "2.prems"(4) [OF "2.prems"(1)] show ?thesis by simp
  next
    case (Inr matches)
    with "2.prems"(2) have "forEachMatch env wo depth ?recursive matches fn s = (res, s')"
      by (simp add: Let_def)
    from "2.IH" [OF refl refl Inr "2.prems"(1) this "2.prems"(3,4,5)] show ?thesis .
  qed
next
  case (3 env wo depth recursive fn s)
  from "3.prems"(2) have "res = RetNil" "s' = s" by simp_all
  with "3.prems"(4) [OF "3.prems"(1)] show ?case by simp
next
  case (4 env wo depth recursive subpath matches fn s)
  show ?case
  proof (cases "os_Stat env subpath (wo s)")
    case (Inl err)
    with "4.prems"(2) have "res = RetErr err" "s' = s" by simp_all
    with "4.prems"(4) [OF "4.prems"(1)] show ?thesis by simp
  next
    case (Inr finfo)
    let ?inner = "if recursive \<and> IsDir finfo
                   then pathForEach env wo depth (subpath @ recursionSuffix) fn s
                 else if IsRegular finfo then fn subpath s
                 else (RetNil, s)"
    obtain r1 s1 where inner: "?inner = (r1, s1)" by (cases ?inner)
    have R1: "R r1 s1"
    proof (cases "recursive \<and> IsDir finfo")
      case True
      with inner have "pathForEach env wo depth (subpath @ recursionSuffix) fn s = (r1, s1)" by simp
      from "4.IH"(1) [OF Inr True "4.prems"(1) this "4.prems"(3,4,5)] show ?thesis .
    next
      case False
      show ?thesis
      proof (cases "IsRegular finfo")
        case True
        with False inner have "fn subpath s = (r1, s1)" by (auto split: if_splits)
        from "4.prems"(3) [OF "4.prems"(1) this] show ?thesis .
      next
        case nr: False
        with False inner have "r1 = RetNil" "s1 = s" by (auto split: if_splits)
        with "4.prems"(4) [OF "4.prems"(1)] show ?thesis by simp
      qed
    qed
    show ?thesis
    proof (cases "r1 = RetNil")
      case True
      with R1 have I1: "I s1" using "4.prems"(5) by simp
      from "4.prems"(2) Inr inner True
      have "forEachMatch env wo depth recursive matches fn s1 = (res, s')" by simp
      from "4.IH"(2) [OF Inr _ _ I1 this "4.prems"(3,4,5)] inner True show ?thesis by simp
    next
      case False
      with "4.prems"(2) Inr inner have "res = r1" "s' = s1"
        by (cases r1; simp)+
      with R1 show ?thesis by simp
    qed
  qed
qed

lemma removeEntities_log:
  "removeEntities env es (r, m) = (res, (r', m')) \<Longrightarrow>
     \<exists>removed rest. es = removed @ rest \<and> log r' = log r @ map EvRemoveEntity removed
       \<and> world r' = world r \<and> (res = RetNil \<longrightarrow> rest = []) \<and> res \<noteq> RetOutOfFuel"
proof (induction es arbitrary: r m)
  case Nil
  then show ?case by auto
next
  case (Cons e es)
  obtain err m1 where rm: "model_RemoveEntity env e m = (err, m1)" by (cases "model_RemoveEntity env e m")
  show ?case
  proof (cases err)
    case (Some x)
    with Cons.prems rm have "log r' = log r @ map EvRemoveEntity [e]" "world r' = world r" "res = RetErr (RemovingEntityFailed (ent_Name e) x)"
      by (auto simp: logged_def)
    then show ?thesis by (intro exI [of _ "[e]"] exI [of _ es]) simp
  next
    case None
    with Cons.prems rm have "removeEntities env es (logged r (EvRemoveEntity e), m1) = (res, (r', m'))"
      by simp
    from Cons.IH [OF this] obtain d rest where d: "es = d @ rest" "log r' = log (logged r (EvRemoveEntity e)) @ map EvRemoveEntity d"
      "world r' = world (logged r (EvRemoveEntity e))" "res = RetNil \<longrightarrow> rest = []" "res \<noteq> RetOutOfFuel"
      by blast
    then show ?thesis by (intro exI [of _ "e # d"] exI [of _ rest]) (simp add: logged_def)
  qed
qed

lemma writeModel_result:
  "writeModel env gen options (r, m) = (res, (r', m')) \<Longrightarrow>
     m' = m \<and> log r' = log r @ [EvWrite m] \<and> res \<noteq> RetOutOfFuel"
  by (auto simp: writeModel_def logged_def split: prod.splits option.splits)

lemma createModel_single_file:
  assumes "\<not> PathIsDirOrPattern env (world r) (opt_InPath options)"
  shows "createModel env gen options (r, m) = writeModel env gen options (r, m)"
  using assms by (simp add: createModel_def)

lemma createModel_directory:
  assumes "PathIsDirOrPattern env (world r) (opt_InPath options)"
    and "createModel env gen options (r, m) = (RetNil, (r', m'))"
  shows "log r' = log r
           @ map EvRemoveEntity (filter (\<lambda>entity. \<not> ent_CurrentlyPresent entity) (Entities m))
           @ [EvFinalize None, EvWrite m']"
proof -
  let ?es = "filter (\<lambda>entity. \<not> ent_CurrentlyPresent entity) (Entities m)"
  obtain res1 r1 m1 where re: "removeEntities env ?es (r, m) = (res1, (r1, m1))"
    by (metis prod.exhaust)
  obtain ferr m2 where fin: "model_Finalize env m1 = (ferr, m2)" by (metis prod.exhaust)
  from assms re have res1: "res1 = RetNil"
    by (cases res1) (simp_all add: createModel_def)
  from assms re res1 fin have ferr: "ferr = None"
    by (cases ferr) (simp_all add: createModel_def)
  from assms re res1 fin ferr
  have w: "writeModel env gen options (logged r1 (EvFinalize None), m2) = (RetNil, (r', m'))"
    by (simp add: createModel_def)
  from removeEntities_log [OF re] res1 have l1: "log r1 = log r @ map EvRemoveEntity ?es" by auto
  from writeModel_result [OF w] l1 show ?thesis by (simp add: logged_def)
qed

text \<open>
  Claim C2. When the input path is not a directory or a pattern, \<open>createModel\<close> calls
  \<open>RemoveEntity\<close> on no entity and leaves the model as it was: it only writes it. When
  the path is a directory or a pattern and \<open>createModel\<close> succeeds, \<open>RemoveEntity\<close> has
  been called on exactly the entities whose currently-present marker is false, in the
  order of the model, before the finalization and the write.
\<close>

theorem C2_removal_only_for_directory_or_pattern:
  assumes "createModel env codeGenerator options (r, modelInfo) = (result, (r', modelInfo'))"
  shows "(\<not> PathIsDirOrPattern env (world r) (opt_InPath options) \<longrightarrow>
            modelInfo' = modelInfo \<and> log r' = log r @ [EvWrite modelInfo])
       \<and> (PathIsDirOrPattern env (world r) (opt_InPath options) \<and> result = RetNil \<longrightarrow>
            log r' = log r
              @ map EvRemoveEntity (filter (\<lambda>entity. \<not> ent_CurrentlyPresent entity) (Entities modelInfo))
              @ [EvFinalize None, EvWrite modelInfo'])"
  using assms createModel_single_file [of env r options codeGenerator modelInfo]
    writeModel_result [of env codeGenerator options r modelInfo result r' modelInfo']
    createModel_directory [of env r options codeGenerator modelInfo r' modelInfo']
  by auto

lemma sample_env_sel:
  "GOOS_windows sample_env = False"
  "model_ModelVersion sample_env = 5"
  "rand_New sample_env = (\<lambda>seed. nat \<bar>seed\<bar>)"
  "filepath_Dir sample_env = (\<lambda>path. ''.'')"
  "filepath_Join sample_env = (\<lambda>dir file. dir @ ''/'' @ file)"
  "os_MkdirAll sample_env = (\<lambda>path w. (None, w))"
  "os_Stat sample_env = (\<lambda>path w.
         if path = ''src'' then Inr \<lparr>IsDir = True, IsRegular = False\<rparr>
         else if path = ''src/task.fbs'' \<or> path = ''notes.txt''
           then Inr \<lparr>IsDir = False, IsRegular = True\<rparr>
         else Inl (External ''no such file''))"
  "os_Remove sample_env = (\<lambda>path w. (None, w))"
  "filepath_Glob sample_env = (\<lambda>pattern w.
         Inr (if pattern = ''src/*'' then [''src/task.fbs'']
              else if pattern = ''notes.txt'' then [''notes.txt'']
              else []))"
  "LoadOrCreateModel sample_env = (\<lambda>path w. (Inr stored_model, w))"
  "model_Validate sample_env = (\<lambda>modelInfo. None)"
  "model_Close sample_env = (\<lambda>modelInfo w. w)"
  "mergeBindingWithModelInfo sample_env = (\<lambda>currentModel storedModel.
         (None, storedModel\<lparr>Entities := Entities storedModel @ Entities currentModel\<rparr>))"
  "model_Finalize sample_env = (\<lambda>modelInfo. (None, modelInfo))"
  "model_RemoveEntity sample_env = (\<lambda>entity modelInfo.
         (None, modelInfo\<lparr>Entities := filter (\<lambda>e. ent_Name e \<noteq> ent_Name entity) (Entities modelInfo)\<rparr>))"
  "model_Write sample_env = (\<lambda>modelInfo w. (None, w))"
  by (simp_all add: sample_env_def)

lemma sample_generator_sel:
  "IsGeneratedFile sample_generator = (\<lambda>file. False)"
  "IsSourceFile sample_generator = (\<lambda>file. HasSuffix file ''.fbs'')"
  "ParseSource sample_generator = (\<lambda>sourceFile w.
         Inr \<lparr>Entities = [entity_A], ModelVersion = 0, MinimumParserVersion = 0, Rand = None\<rparr>)"
  "WriteBindingFiles sample_generator = (\<lambda>sourceFile options mergedModel w. (None, w))"
  "WriteModelBindingFile sample_generator = (\<lambda>options mergedModel w. (None, w))"
  by (simp_all add: sample_generator_def)

lemma notes_not_pattern:
  "\<not> PathIsDirOrPattern sample_env () ''notes.txt''"
  by (simp add: PathIsDirOrPattern_def HasSuffix_def recursionSuffix_def ContainsAny_def sample_env_sel)

lemma src_is_dir:
  "PathIsDirOrPattern sample_env () ''src''"
  by (simp add: PathIsDirOrPattern_def HasSuffix_def recursionSuffix_def ContainsAny_def sample_env_sel)

lemma process_notes:
  "Process sample_env sample_generator 0 (Suc 0) (sample_options ''notes.txt'') ()
     = (RetNil, \<lparr>world = (), log = [EvValidate (stored_model\<lparr>Rand := Some 11\<rparr>),
                                      EvWrite (stored_model\<lparr>Rand := Some 11\<rparr>)]\<rparr>)"
  by (simp add: Process_def processModel_def createBinding_def createBinding_file_def createModel_def
      writeModel_def logged_def sample_options_def notes_not_pattern
      HasSuffix_def recursionSuffix_def sample_env_sel sample_generator_sel stored_model_def
      ModelInfoFile_def Let_def)

lemma process_src:
  "Process sample_env sample_generator 0 (Suc 0) (sample_options ''src'') ()
     = (RetNil, \<lparr>world = (), log =
         [EvValidate (stored_model\<lparr>Rand := Some 11\<rparr>), EvMerge None, EvFinalize None,
          EvRemoveEntity entity_B, EvFinalize None,
          EvWrite (stored_model\<lparr>Rand := Some 11,
             Entities := [entity_A\<lparr>ent_CurrentlyPresent := True\<rparr>]\<rparr>)]\<rparr>)"
  by (simp add: Process_def processModel_def createBinding_def createBinding_file_def createModel_def
      writeModel_def logged_def sample_options_def src_is_dir Clean_def
      HasSuffix_def recursionSuffix_def sample_env_sel sample_generator_sel stored_model_def
      ModelInfoFile_def Let_def clear_meta_def mark_present_def entity_A_def entity_B_def)

lemma failed_not_write: "failed ev \<Longrightarrow> \<not> is_write ev"
  by (cases ev) auto

lemma quiet_append: "quiet (l @ l') \<longleftrightarrow> quiet l \<and> quiet l'"
  by (auto simp: quiet_def)

lemma quiet_simps:
  "quiet []"
  "quiet (ev # l) \<longleftrightarrow> \<not> failed ev \<and> \<not> is_write ev \<and> quiet l"
  by (auto simp: quiet_def)

lemma quiet_removals: "quiet (map EvRemoveEntity es)"
  by (induction es) (simp_all add: quiet_simps)

lemma createBinding_file_outcome:
  assumes "settled (log r)"
    and "createBinding_file env gen options p (r, m) = (res, (r', m'))"
  shows "binding_outcome res (log r')"
proof (cases "IsSourceFile gen p")
  case False
  with assms show ?thesis by (simp add: createBinding_file_def binding_outcome_def settled_def)
next
  case True
  note src = this
  show ?thesis
  proof (cases "ParseSource gen p (world r)")
    case (Inl err)
    with assms src show ?thesis
      by (auto simp: createBinding_file_def binding_outcome_def settled_def Let_def)
  next
    case (Inr current)
    obtain merr merged where mg: "mergeBindingWithModelInfo env current (clear_meta m) = (merr, merged)"
      by (metis prod.exhaust)
    show ?thesis
    proof (cases merr)
      case (Some err)
      with assms src Inr mg have "res = RetErr (CantMergeModelInformation err)"
        "log r' = log r @ [EvMerge (Some err)]"
        by (auto simp: createBinding_file_def Let_def logged_def)
      with assms(1) show ?thesis by (simp add: binding_outcome_def settled_def)
    next
      case None
      note mnone = this
      obtain ferr finalized where fin: "model_Finalize env merged = (ferr, finalized)"
        by (metis prod.exhaust)
      show ?thesis
      proof (cases ferr)
        case (Some err)
        with assms src Inr mg mnone fin have "res = RetErr (ModelFinalizationFailed err)"
          "log r' = log r @ [EvMerge None, EvFinalize (Some err)]"
          by (auto simp: createBinding_file_def Let_def logged_def)
        moreover have "butlast (log r @ [EvMerge None, EvFinalize (Some err)]) = log r @ [EvMerge None]"
          by (simp add: butlast_append)
        ultimately show ?thesis using assms(1)
          by (simp add: binding_outcome_def settled_def quiet_append quiet_simps)
      next
        case None
        let ?r = "logged (logged r (EvMerge None)) (EvFinalize None)"
        obtain werr w where wb: "WriteBindingFiles gen p options finalized (world ?r) = (werr, w)"
          by (metis prod.exhaust)
        from assms src Inr mg mnone fin None wb
        have l: "log r' = log r @ [EvMerge None, EvFinalize None]" and res: "res = RetNil \<or> (\<exists>e. res = RetErr e)"
          by (cases werr; auto simp: createBinding_file_def Let_def logged_def)+
        from assms(1) have "settled (log r @ [EvMerge None, EvFinalize None])"
          by (simp add: settled_def quiet_append quiet_simps)
        with l show ?thesis by (simp add: binding_outcome_def settled_def)
      qed
    qed
  qed
qed

lemma createBinding_outcome:
  fixes r :: "('w, 'r) run"
  assumes "settled (log r)"
    and "createBinding env gen depth options (r, m) = (res, (r', m'))"
  shows "binding_outcome res (log r')"
proof -
  let ?I = "\<lambda>s :: ('w, 'r) run \<times> 'r ModelInfo. settled (log (fst s))"
  let ?R = "\<lambda>res (s :: ('w, 'r) run \<times> 'r ModelInfo). binding_outcome res (log (fst s))"
  have "?R res (r', m')"
  proof (rule pathForEach_invariant(1) [where I = ?I and R = ?R])
    fix p s res s'
    assume "settled (log (fst s))" and "createBinding_file env gen options p s = (res, s')"
    then show "binding_outcome res (log (fst s'))"
      using createBinding_file_outcome [of "fst s" env gen options p "snd s" res "fst s'" "snd s'"]
      by simp
  next
    fix s :: "('w, 'r) run \<times> 'r ModelInfo" and res
    assume "settled (log (fst s))"
    then show "binding_outcome res (log (fst s))" by (simp add: binding_outcome_def settled_def)
  next
    fix s :: "('w, 'r) run \<times> 'r ModelInfo"
    assume "binding_outcome RetNil (log (fst s))"
    then show "settled (log (fst s))" by (simp add: binding_outcome_def)
  next
    show "settled (log (fst (r, m)))" using assms(1) by simp
  next
    show "pathForEach env (\<lambda>s. world (fst s)) depth (opt_InPath options)
            (createBinding_file env gen options) (r, m) = (res, (r', m'))"
      using assms(2) by (simp add: createBinding_def)
  qed
  then show ?thesis by simp
qed

lemma createModel_outcome:
  assumes "settled (log r)"
    and "createModel env gen options (r, m) = (res, (r', m'))"
  shows "final_outcome res (log r')"
proof (cases "PathIsDirOrPattern env (world r) (opt_InPath options)")
  case False
  with assms(2) have "writeModel env gen options (r, m) = (res, (r', m'))"
    by (simp add: createModel_def)
  from writeModel_result [OF this] assms(1) show ?thesis
    by (simp add: final_outcome_def)
next
  case True
  let ?es = "filter (\<lambda>entity. \<not> ent_CurrentlyPresent entity) (Entities m)"
  obtain res1 r1 m1 where re: "removeEntities env ?es (r, m) = (res1, (r1, m1))"
    by (metis prod.exhaust)
  from removeEntities_log [OF re] obtain removed where l1: "log r1 = log r @ map EvRemoveEntity removed"
    by blast
  have q1: "quiet (log r1)" using assms(1) l1 by (simp add: settled_def quiet_append quiet_removals)
  show ?thesis
  proof (cases "res1 = RetNil")
    case False
    with assms(2) True re have "res = res1" "r' = r1"
      by (cases res1; auto simp: createModel_def)+
    with q1 show ?thesis by (simp add: final_outcome_def)
  next
    case nil: True
    obtain ferr m2 where fin: "model_Finalize env m1 = (ferr, m2)" by (metis prod.exhaust)
    show ?thesis
    proof (cases ferr)
      case (Some err)
      with assms(2) True re nil fin have "res = RetErr (ModelFinalizationFailed err)"
        "log r' = log r1 @ [EvFinalize (Some err)]"
        by (auto simp: createModel_def logged_def)
      with q1 show ?thesis by (simp add: final_outcome_def)
    next
      case None
      with assms(2) True re nil fin
      have "writeModel env gen options (logged r1 (EvFinalize None), m2) = (res, (r', m'))"
        by (simp add: createModel_def)
      from writeModel_result [OF this] have "log r' = (log r1 @ [EvFinalize None]) @ [EvWrite m2]"
        by (simp add: logged_def)
      moreover have "settled (log r1 @ [EvFinalize None])"
        using q1 by (simp add: settled_def quiet_append quiet_simps)
      ultimately show ?thesis by (simp add: final_outcome_def del: append_assoc)
    qed
  qed
qed

lemma processModel_outcome:
  assumes "log r = []"
    and "processModel env gen depth options (r, loaded) = (res, (r', m'))"
  shows "final_outcome res (log r')"
proof -
  let ?m = "loaded\<lparr>Rand := opt_Rand options\<rparr>"
  let ?r = "logged r (EvValidate ?m)"
  have s0: "settled (log ?r)" using assms(1) by (simp add: logged_def settled_def quiet_simps)
  show ?thesis
  proof (cases "model_Validate env ?m")
    case (Some err)
    with assms(2) have "r' = ?r" by (auto simp: processModel_def Let_def)
    with s0 show ?thesis by (simp add: final_outcome_def settled_def)
  next
    case None
    let ?up = "?m\<lparr>MinimumParserVersion := model_ModelVersion env, ModelVersion := model_ModelVersion env\<rparr>"
    obtain res1 r1 m1 where cb: "createBinding env gen depth options (?r, ?up) = (res1, (r1, m1))"
      by (metis prod.exhaust)
    from createBinding_outcome [OF s0 cb] have bo: "binding_outcome res1 (log r1)" .
    show ?thesis
    proof (cases "res1 = RetNil")
      case True
      with assms(2) None cb have "createModel env gen options (r1, m1) = (res, (r', m'))"
        by (simp add: processModel_def Let_def)
      moreover from bo True have "settled (log r1)" by (simp add: binding_outcome_def)
      ultimately show ?thesis by (rule createModel_outcome [rotated])
    next
      case False
      with assms(2) None cb have "res = res1" "r' = r1"
        by (cases res1; auto simp: processModel_def Let_def)+
      with bo False show ?thesis by (auto simp: binding_outcome_def final_outcome_def)
    qed
  qed
qed

lemma Clean_log:
  fixes r :: "('w, 'r) run"
  assumes "Clean env gen depth path r = (res, r')"
  shows "log r' = log r"
proof -
  let ?I = "\<lambda>s :: ('w, 'r) run. log s = log r"
  let ?R = "\<lambda>(res :: ret) (s :: ('w, 'r) run). log s = log r"
  show ?thesis
  proof (rule pathForEach_invariant(1) [where I = ?I and R = ?R and s = r and res = res])
    show "pathForEach env world depth path
       (\<lambda>filePath r.
          if \<not> IsGeneratedFile gen filePath then (RetNil, r)
          else (case os_Remove env filePath (world r) of
                  (None, w) \<Rightarrow> (RetNil, r\<lparr>world := w\<rparr>)
                | (Some err, w) \<Rightarrow> (RetErr err, r\<lparr>world := w\<rparr>)))
       r = (res, r')"
      using assms by (simp add: Clean_def)
  qed (auto split: if_splits prod.splits option.splits)
qed

lemma Process_decompose:
  fixes r :: "('w, 'r) run"
  assumes "Process env gen now depth options w = (res, r)"
  shows "log r = []
     \<or> (\<exists>r0 loaded r5 m5 options'.
           log r0 = []
         \<and> opt_Rand options' = Some (case opt_Rand options of Some rnd \<Rightarrow> rnd | None \<Rightarrow> rand_New env now)
         \<and> opt_InPath options' = opt_InPath options
         \<and> processModel env gen depth options' (r0, loaded) = (res, (r5, m5))
         \<and> log r = log r5)"
proof -
  obtain e1 w1 where mk1: "(if length (opt_OutPath options) \<noteq> 0 then os_MkdirAll env (opt_OutPath options) w
            else (None, w)) = (e1, w1)" by (metis prod.exhaust)
  obtain e2 w2 where mk2: "(if length (opt_OutHeadersPath options) \<noteq> 0
            then os_MkdirAll env (opt_OutHeadersPath options) w1 else (None, w1)) = (e2, w2)"
    by (metis prod.exhaust)
  let ?r2 = "\<lparr>world = w2, log = []\<rparr> :: ('w, 'r) run"
  obtain res3 r3 where cl: "(if PathIsDirOrPattern env w2 (opt_InPath options)
            then Clean env gen depth
                   (if length (opt_OutPath options) \<noteq> 0 then opt_OutPath options
                    else opt_InPath options) ?r2
            else (RetNil, ?r2)) = (res3, r3)" by (metis prod.exhaust)
  have l3: "log r3 = []" using cl Clean_log [of env gen depth _ ?r2 res3 r3]
    by (auto split: if_splits)
  show ?thesis
  proof (cases e1)
    case (Some err)
    with assms mk1 show ?thesis by (auto simp: Process_def)
  next
    case n1: None
    show ?thesis
    proof (cases e2)
      case (Some err)
      with assms mk1 n1 mk2 show ?thesis by (auto simp: Process_def)
    next
      case n2: None
      show ?thesis
      proof (cases "res3 = RetNil")
        case False
        with assms mk1 n1 mk2 n2 cl have "r = r3"
          by (cases res3; auto simp: Process_def)+
        with l3 show ?thesis by simp
      next
        case True
        let ?o1 = "if opt_Rand options = None
                          then options\<lparr>opt_Rand := Some (rand_New env now)\<rparr> else options"
        let ?o2 = "if length (opt_ModelInfoFile ?o1) = 0
                          then ?o1\<lparr>opt_ModelInfoFile :=
                                 ModelInfoFile env (filepath_Dir env (opt_InPath ?o1))\<rparr>
                          else ?o1"
        have rnd: "opt_Rand ?o2 = Some (case opt_Rand options of Some rnd \<Rightarrow> rnd | None \<Rightarrow> rand_New env now)"
          by (cases "opt_Rand options") simp_all
        have inp: "opt_InPath ?o2 = opt_InPath options" by simp
        obtain ld w4 where load: "LoadOrCreateModel env (opt_ModelInfoFile ?o2) (world r3) = (ld, w4)"
          by (metis prod.exhaust)
        show ?thesis
        proof (cases ld)
          case (Inl err)
          with assms mk1 n1 mk2 n2 cl True load have "r = r3\<lparr>world := w4\<rparr>"
            by (auto simp: Process_def Let_def)
          with l3 show ?thesis by simp
        next
          case (Inr loaded)
          obtain res5 r5 m5 where pm:
            "processModel env gen depth ?o2 (r3\<lparr>world := w4\<rparr>, loaded) = (res5, (r5, m5))"
            by (metis prod.exhaust)
          have l0: "log (r3\<lparr>world := w4\<rparr>) = []" using l3 by simp
          from assms mk1 n1 mk2 n2 cl True load Inr pm
          have "res = res5" "r = r5\<lparr>world := model_Close env m5 (world r5)\<rparr>"
            by (auto simp: Process_def Let_def)
          then have "processModel env gen depth ?o2 (r3\<lparr>world := w4\<rparr>, loaded) = (res, (r5, m5))"
            "log r = log r5"
            using pm by simp_all
          with l0 rnd inp show ?thesis by blast
        qed
      qed
    qed
  qed
qed

lemma Process_outcome:
  fixes r :: "('w, 'r) run"
  assumes "Process env gen now depth options w = (res, r)"
  shows "final_outcome res (log r)"
proof -
  from Process_decompose [OF assms] consider (early) "log r = []"
    | (loaded) r0 loaded r5 m5 options' where "log r0 = []"
        "processModel env gen depth options' (r0, loaded) = (res, (r5, m5))" "log r = log r5"
    by blast
  then show ?thesis
  proof cases
    case early
    then show ?thesis by (simp add: final_outcome_def quiet_simps)
  next
    case loaded
    from processModel_outcome [OF loaded(1) loaded(2)] loaded(3) show ?thesis by simp
  qed
qed









text \<open>
  Claim C3, amended. In the log of any run of \<open>Process\<close>: if a merge or a finalization
  returned an error, then \<open>Process\<close> returns an error and the model file is not written;
  and if the model file is written, the write is the last logged step, no merge or
  finalization before it failed, nothing was written before it, and, whenever a merge
  took place, the step just before the write is a successful finalization.
\<close>

theorem C3_write_never_follows_failure:
  assumes "Process env codeGenerator now depth options w = (result, r)"
  shows "(list_ex failed (log r) \<longrightarrow> \<not> list_ex is_write (log r) \<and> (\<exists>err. result = RetErr err))
       \<and> (list_ex is_write (log r) \<longrightarrow>
            is_write (last (log r)) \<and> \<not> list_ex failed (butlast (log r))
            \<and> \<not> list_ex is_write (butlast (log r))
            \<and> (list_ex is_merge (log r) \<longrightarrow> last (butlast (log r)) = EvFinalize None))"
proof -
  let ?l = "log r"
  from Process_outcome [OF assms] have fo: "final_outcome result ?l" .
  have split: "list_ex P ?l \<longleftrightarrow> list_ex P (butlast ?l) \<or> P (last ?l)" if "?l \<noteq> []" for P
  proof -
    from that have "?l = butlast ?l @ [last ?l]" by simp
    then have "list_ex P ?l = list_ex P (butlast ?l @ [last ?l])" by simp
    then show ?thesis by (auto simp: list_ex_iff)
  qed
  from fo consider (a) "quiet ?l"
    | (b) "?l \<noteq> []" "failed (last ?l)" "quiet (butlast ?l)" "\<exists>err. result = RetErr err"
    | (c) "?l \<noteq> []" "is_write (last ?l)" "settled (butlast ?l)"
    by (auto simp: final_outcome_def)
  then show ?thesis
  proof cases
    case a
    then show ?thesis by (simp add: quiet_def)
  next
    case b
    then show ?thesis
      using split [OF b(1), of failed] split [OF b(1), of is_write] failed_not_write [OF b(2)]
      by (simp add: quiet_def)
  next
    case c
    have nf: "\<not> failed (last ?l)" using c(2) failed_not_write by blast
    have nm: "\<not> is_merge (last ?l)" using c(2) by (cases "last ?l") auto
    show ?thesis
      using c split [OF c(1), of failed] split [OF c(1), of is_write] split [OF c(1), of is_merge] nf nm
      by (simp add: settled_def quiet_def)
  qed
qed


text \<open>
  A run on the directory \<open>src\<close>: one schema is merged, the stored entity \<open>B\<close> is
  removed, and the write follows the last successful finalization.
\<close>

theorem C3_write_never_follows_failure_witness:
  "list_ex is_write (log (snd (Process sample_env sample_generator 0 (Suc 0) (sample_options ''src'') ())))
   \<and> list_ex is_merge (log (snd (Process sample_env sample_generator 0 (Suc 0) (sample_options ''src'') ())))
   \<and> \<not> list_ex failed (log (snd (Process sample_env sample_generator 0 (Suc 0) (sample_options ''src'') ())))
   \<and> last (butlast (log (snd (Process sample_env sample_generator 0 (Suc 0) (sample_options ''src'') ()))))
       = EvFinalize None"
  using C3_write_never_follows_failure [OF process_src] process_src
  by simp

text \<open>
  A run on the single file \<open>notes.txt\<close>, which is no source file: nothing is merged, no
  finalization is called, and the model file is written all the same.
\<close>

theorem C3_write_without_finalize_counterexample:
  "list_ex is_write (log (snd (Process sample_env sample_generator 0 (Suc 0) (sample_options ''notes.txt'') ())))
   \<and> \<not> list_ex is_finalize (log (snd (Process sample_env sample_generator 0 (Suc 0) (sample_options ''notes.txt'') ())))"
  by (simp add: process_notes)


text \<open>
  A run on the single file \<open>notes.txt\<close> while the stored entity \<open>B\<close> is not marked
  present: the model is written as it is, \<open>B\<close> included.
\<close>

theorem C2_removal_only_for_directory_or_pattern_witness:
  "createModel sample_env sample_generator (sample_options ''notes.txt'')
        (\<lparr>world = (), log = []\<rparr>, stored_model)
     = (RetNil, (\<lparr>world = (), log = [EvWrite stored_model]\<rparr>, stored_model))
   \<and> entity_B \<in> set (Entities stored_model) \<and> \<not> ent_CurrentlyPresent entity_B"
proof -
  have c: "createModel sample_env sample_generator (sample_options ''notes.txt'')
        (\<lparr>world = (), log = []\<rparr>, stored_model)
     = (RetNil, (\<lparr>world = (), log = [EvWrite stored_model]\<rparr>, stored_model))"
    using notes_not_pattern
    by (simp add: createModel_def writeModel_def logged_def sample_options_def
        sample_env_sel sample_generator_sel)
  have n: "\<not> PathIsDirOrPattern sample_env (world \<lparr>world = (), log = []\<rparr>)
             (opt_InPath (sample_options ''notes.txt''))"
    using notes_not_pattern by (simp add: sample_options_def)
  from C2_removal_only_for_directory_or_pattern [OF c] n c
  show ?thesis by (simp add: stored_model_def entity_B_def)
qed

end
